theory Spec2Isabelle
  imports Main "HOL-Library.Sublist"
begin

section \<open>Python strings\<close>

text \<open>
  A Python \<^verbatim>\<open>str\<close> is a sequence of Unicode code points. The parser's literals are
  not all ASCII, and \<^verbatim>\<open>title[:60]\<close> counts code points, so a string is modelled as the
  list of its code points. \<open>str\<close> reads an ASCII literal.
\<close>

type_synonym ustr = "nat list"

definition str :: "string \<Rightarrow> ustr" where
  "str s = map of_char s"

subsection \<open>Character classes of the Unicode database\<close>

text \<open>
  \<^verbatim>\<open>str.strip()\<close> and the regular expression escapes \<^verbatim>\<open>\s\<close>, \<^verbatim>\<open>\w\<close>, \<^verbatim>\<open>\d\<close> of a
  \<^verbatim>\<open>str\<close> pattern consult the Unicode character database of the interpreter:
  \<^verbatim>\<open>\s\<close> is \<^verbatim>\<open>str.isspace\<close>, \<^verbatim>\<open>\d\<close> is \<^verbatim>\<open>str.isdecimal\<close> and \<^verbatim>\<open>\w\<close> is
  \<^verbatim>\<open>str.isalnum\<close> or the underscore. The tables below are those of Unicode 14.0.0
  (CPython 3.11), as sorted lists of inclusive code point ranges.
\<close>

fun in_ranges :: "nat \<Rightarrow> (nat \<times> nat) list \<Rightarrow> bool" where
  "in_ranges c [] = False"
| "in_ranges c ((lo, hi) # rs) =
     (if c < lo then False else if c \<le> hi then True else in_ranges c rs)"

definition isspace :: "nat \<Rightarrow> bool" where
  "isspace c =
     ((0x09 \<le> c \<and> c \<le> 0x0D) \<or> (0x1C \<le> c \<and> c \<le> 0x20) \<or> c = 0x85 \<or> c = 0xA0 \<or>
      c = 0x1680 \<or> (0x2000 \<le> c \<and> c \<le> 0x200A) \<or> c = 0x2028 \<or> c = 0x2029 \<or>
      c = 0x202F \<or> c = 0x205F \<or> c = 0x3000)"

definition alnum_ranges_0 :: "(nat \<times> nat) list" where
  "alnum_ranges_0 =
     [(0x30, 0x39), (0x41, 0x5A), (0x61, 0x7A), (0xAA, 0xAA), (0xB2, 0xB3),
      (0xB5, 0xB5), (0xB9, 0xBA), (0xBC, 0xBE), (0xC0, 0xD6), (0xD8, 0xF6),
      (0xF8, 0x2C1), (0x2C6, 0x2D1), (0x2E0, 0x2E4), (0x2EC, 0x2EC), (0x2EE, 0x2EE),
      (0x370, 0x374), (0x376, 0x377), (0x37A, 0x37D), (0x37F, 0x37F), (0x386, 0x386),
      (0x388, 0x38A), (0x38C, 0x38C), (0x38E, 0x3A1), (0x3A3, 0x3F5), (0x3F7, 0x481),
      (0x48A, 0x52F), (0x531, 0x556), (0x559, 0x559), (0x560, 0x588), (0x5D0, 0x5EA),
      (0x5EF, 0x5F2), (0x620, 0x64A), (0x660, 0x669), (0x66E, 0x66F), (0x671, 0x6D3),
      (0x6D5, 0x6D5), (0x6E5, 0x6E6), (0x6EE, 0x6FC), (0x6FF, 0x6FF), (0x710, 0x710)]"

definition alnum_ranges_1 :: "(nat \<times> nat) list" where
  "alnum_ranges_1 =
     [(0x712, 0x72F), (0x74D, 0x7A5), (0x7B1, 0x7B1), (0x7C0, 0x7EA), (0x7F4, 0x7F5),
      (0x7FA, 0x7FA), (0x800, 0x815), (0x81A, 0x81A), (0x824, 0x824), (0x828, 0x828),
      (0x840, 0x858), (0x860, 0x86A), (0x870, 0x887), (0x889, 0x88E), (0x8A0, 0x8C9),
      (0x904, 0x939), (0x93D, 0x93D), (0x950, 0x950), (0x958, 0x961), (0x966, 0x96F),
      (0x971, 0x980), (0x985, 0x98C), (0x98F, 0x990), (0x993, 0x9A8), (0x9AA, 0x9B0),
      (0x9B2, 0x9B2), (0x9B6, 0x9B9), (0x9BD, 0x9BD), (0x9CE, 0x9CE), (0x9DC, 0x9DD),
      (0x9DF, 0x9E1), (0x9E6, 0x9F1), (0x9F4, 0x9F9), (0x9FC, 0x9FC), (0xA05, 0xA0A),
      (0xA0F, 0xA10), (0xA13, 0xA28), (0xA2A, 0xA30), (0xA32, 0xA33), (0xA35, 0xA36)]"

definition alnum_ranges_2 :: "(nat \<times> nat) list" where
  "alnum_ranges_2 =
     [(0xA38, 0xA39), (0xA59, 0xA5C), (0xA5E, 0xA5E), (0xA66, 0xA6F), (0xA72, 0xA74),
      (0xA85, 0xA8D), (0xA8F, 0xA91), (0xA93, 0xAA8), (0xAAA, 0xAB0), (0xAB2, 0xAB3),
      (0xAB5, 0xAB9), (0xABD, 0xABD), (0xAD0, 0xAD0), (0xAE0, 0xAE1), (0xAE6, 0xAEF),
      (0xAF9, 0xAF9), (0xB05, 0xB0C), (0xB0F, 0xB10), (0xB13, 0xB28), (0xB2A, 0xB30),
      (0xB32, 0xB33), (0xB35, 0xB39), (0xB3D, 0xB3D), (0xB5C, 0xB5D), (0xB5F, 0xB61),
      (0xB66, 0xB6F), (0xB71, 0xB77), (0xB83, 0xB83), (0xB85, 0xB8A), (0xB8E, 0xB90),
      (0xB92, 0xB95), (0xB99, 0xB9A), (0xB9C, 0xB9C), (0xB9E, 0xB9F), (0xBA3, 0xBA4),
      (0xBA8, 0xBAA), (0xBAE, 0xBB9), (0xBD0, 0xBD0), (0xBE6, 0xBF2), (0xC05, 0xC0C)]"

definition alnum_ranges_3 :: "(nat \<times> nat) list" where
  "alnum_ranges_3 =
     [(0xC0E, 0xC10), (0xC12, 0xC28), (0xC2A, 0xC39), (0xC3D, 0xC3D), (0xC58, 0xC5A),
      (0xC5D, 0xC5D), (0xC60, 0xC61), (0xC66, 0xC6F), (0xC78, 0xC7E), (0xC80, 0xC80),
      (0xC85, 0xC8C), (0xC8E, 0xC90), (0xC92, 0xCA8), (0xCAA, 0xCB3), (0xCB5, 0xCB9),
      (0xCBD, 0xCBD), (0xCDD, 0xCDE), (0xCE0, 0xCE1), (0xCE6, 0xCEF), (0xCF1, 0xCF2),
      (0xD04, 0xD0C), (0xD0E, 0xD10), (0xD12, 0xD3A), (0xD3D, 0xD3D), (0xD4E, 0xD4E),
      (0xD54, 0xD56), (0xD58, 0xD61), (0xD66, 0xD78), (0xD7A, 0xD7F), (0xD85, 0xD96),
      (0xD9A, 0xDB1), (0xDB3, 0xDBB), (0xDBD, 0xDBD), (0xDC0, 0xDC6), (0xDE6, 0xDEF),
      (0xE01, 0xE30), (0xE32, 0xE33), (0xE40, 0xE46), (0xE50, 0xE59), (0xE81, 0xE82)]"

definition alnum_ranges_4 :: "(nat \<times> nat) list" where
  "alnum_ranges_4 =
     [(0xE84, 0xE84), (0xE86, 0xE8A), (0xE8C, 0xEA3), (0xEA5, 0xEA5), (0xEA7, 0xEB0),
      (0xEB2, 0xEB3), (0xEBD, 0xEBD), (0xEC0, 0xEC4), (0xEC6, 0xEC6), (0xED0, 0xED9),
      (0xEDC, 0xEDF), (0xF00, 0xF00), (0xF20, 0xF33), (0xF40, 0xF47), (0xF49, 0xF6C),
      (0xF88, 0xF8C), (0x1000, 0x102A), (0x103F, 0x1049), (0x1050, 0x1055), (0x105A, 0x105D),
      (0x1061, 0x1061), (0x1065, 0x1066), (0x106E, 0x1070), (0x1075, 0x1081), (0x108E, 0x108E),
      (0x1090, 0x1099), (0x10A0, 0x10C5), (0x10C7, 0x10C7), (0x10CD, 0x10CD), (0x10D0, 0x10FA),
      (0x10FC, 0x1248), (0x124A, 0x124D), (0x1250, 0x1256), (0x1258, 0x1258), (0x125A, 0x125D),
      (0x1260, 0x1288), (0x128A, 0x128D), (0x1290, 0x12B0), (0x12B2, 0x12B5), (0x12B8, 0x12BE)]"

definition alnum_ranges_5 :: "(nat \<times> nat) list" where
  "alnum_ranges_5 =
     [(0x12C0, 0x12C0), (0x12C2, 0x12C5), (0x12C8, 0x12D6), (0x12D8, 0x1310), (0x1312, 0x1315),
      (0x1318, 0x135A), (0x1369, 0x137C), (0x1380, 0x138F), (0x13A0, 0x13F5), (0x13F8, 0x13FD),
      (0x1401, 0x166C), (0x166F, 0x167F), (0x1681, 0x169A), (0x16A0, 0x16EA), (0x16EE, 0x16F8),
      (0x1700, 0x1711), (0x171F, 0x1731), (0x1740, 0x1751), (0x1760, 0x176C), (0x176E, 0x1770),
      (0x1780, 0x17B3), (0x17D7, 0x17D7), (0x17DC, 0x17DC), (0x17E0, 0x17E9), (0x17F0, 0x17F9),
      (0x1810, 0x1819), (0x1820, 0x1878), (0x1880, 0x1884), (0x1887, 0x18A8), (0x18AA, 0x18AA),
      (0x18B0, 0x18F5), (0x1900, 0x191E), (0x1946, 0x196D), (0x1970, 0x1974), (0x1980, 0x19AB),
      (0x19B0, 0x19C9), (0x19D0, 0x19DA), (0x1A00, 0x1A16), (0x1A20, 0x1A54), (0x1A80, 0x1A89)]"

definition alnum_ranges_6 :: "(nat \<times> nat) list" where
  "alnum_ranges_6 =
     [(0x1A90, 0x1A99), (0x1AA7, 0x1AA7), (0x1B05, 0x1B33), (0x1B45, 0x1B4C), (0x1B50, 0x1B59),
      (0x1B83, 0x1BA0), (0x1BAE, 0x1BE5), (0x1C00, 0x1C23), (0x1C40, 0x1C49), (0x1C4D, 0x1C7D),
      (0x1C80, 0x1C88), (0x1C90, 0x1CBA), (0x1CBD, 0x1CBF), (0x1CE9, 0x1CEC), (0x1CEE, 0x1CF3),
      (0x1CF5, 0x1CF6), (0x1CFA, 0x1CFA), (0x1D00, 0x1DBF), (0x1E00, 0x1F15), (0x1F18, 0x1F1D),
      (0x1F20, 0x1F45), (0x1F48, 0x1F4D), (0x1F50, 0x1F57), (0x1F59, 0x1F59), (0x1F5B, 0x1F5B),
      (0x1F5D, 0x1F5D), (0x1F5F, 0x1F7D), (0x1F80, 0x1FB4), (0x1FB6, 0x1FBC), (0x1FBE, 0x1FBE),
      (0x1FC2, 0x1FC4), (0x1FC6, 0x1FCC), (0x1FD0, 0x1FD3), (0x1FD6, 0x1FDB), (0x1FE0, 0x1FEC),
      (0x1FF2, 0x1FF4), (0x1FF6, 0x1FFC), (0x2070, 0x2071), (0x2074, 0x2079), (0x207F, 0x2089)]"

definition alnum_ranges_7 :: "(nat \<times> nat) list" where
  "alnum_ranges_7 =
     [(0x2090, 0x209C), (0x2102, 0x2102), (0x2107, 0x2107), (0x210A, 0x2113), (0x2115, 0x2115),
      (0x2119, 0x211D), (0x2124, 0x2124), (0x2126, 0x2126), (0x2128, 0x2128), (0x212A, 0x212D),
      (0x212F, 0x2139), (0x213C, 0x213F), (0x2145, 0x2149), (0x214E, 0x214E), (0x2150, 0x2189),
      (0x2460, 0x249B), (0x24EA, 0x24FF), (0x2776, 0x2793), (0x2C00, 0x2CE4), (0x2CEB, 0x2CEE),
      (0x2CF2, 0x2CF3), (0x2CFD, 0x2CFD), (0x2D00, 0x2D25), (0x2D27, 0x2D27), (0x2D2D, 0x2D2D),
      (0x2D30, 0x2D67), (0x2D6F, 0x2D6F), (0x2D80, 0x2D96), (0x2DA0, 0x2DA6), (0x2DA8, 0x2DAE),
      (0x2DB0, 0x2DB6), (0x2DB8, 0x2DBE), (0x2DC0, 0x2DC6), (0x2DC8, 0x2DCE), (0x2DD0, 0x2DD6),
      (0x2DD8, 0x2DDE), (0x2E2F, 0x2E2F), (0x3005, 0x3007), (0x3021, 0x3029), (0x3031, 0x3035)]"

definition alnum_ranges_8 :: "(nat \<times> nat) list" where
  "alnum_ranges_8 =
     [(0x3038, 0x303C), (0x3041, 0x3096), (0x309D, 0x309F), (0x30A1, 0x30FA), (0x30FC, 0x30FF),
      (0x3105, 0x312F), (0x3131, 0x318E), (0x3192, 0x3195), (0x31A0, 0x31BF), (0x31F0, 0x31FF),
      (0x3220, 0x3229), (0x3248, 0x324F), (0x3251, 0x325F), (0x3280, 0x3289), (0x32B1, 0x32BF),
      (0x3400, 0x4DBF), (0x4E00, 0xA48C), (0xA4D0, 0xA4FD), (0xA500, 0xA60C), (0xA610, 0xA62B),
      (0xA640, 0xA66E), (0xA67F, 0xA69D), (0xA6A0, 0xA6EF), (0xA717, 0xA71F), (0xA722, 0xA788),
      (0xA78B, 0xA7CA), (0xA7D0, 0xA7D1), (0xA7D3, 0xA7D3), (0xA7D5, 0xA7D9), (0xA7F2, 0xA801),
      (0xA803, 0xA805), (0xA807, 0xA80A), (0xA80C, 0xA822), (0xA830, 0xA835), (0xA840, 0xA873),
      (0xA882, 0xA8B3), (0xA8D0, 0xA8D9), (0xA8F2, 0xA8F7), (0xA8FB, 0xA8FB), (0xA8FD, 0xA8FE)]"

definition alnum_ranges_9 :: "(nat \<times> nat) list" where
  "alnum_ranges_9 =
     [(0xA900, 0xA925), (0xA930, 0xA946), (0xA960, 0xA97C), (0xA984, 0xA9B2), (0xA9CF, 0xA9D9),
      (0xA9E0, 0xA9E4), (0xA9E6, 0xA9FE), (0xAA00, 0xAA28), (0xAA40, 0xAA42), (0xAA44, 0xAA4B),
      (0xAA50, 0xAA59), (0xAA60, 0xAA76), (0xAA7A, 0xAA7A), (0xAA7E, 0xAAAF), (0xAAB1, 0xAAB1),
      (0xAAB5, 0xAAB6), (0xAAB9, 0xAABD), (0xAAC0, 0xAAC0), (0xAAC2, 0xAAC2), (0xAADB, 0xAADD),
      (0xAAE0, 0xAAEA), (0xAAF2, 0xAAF4), (0xAB01, 0xAB06), (0xAB09, 0xAB0E), (0xAB11, 0xAB16),
      (0xAB20, 0xAB26), (0xAB28, 0xAB2E), (0xAB30, 0xAB5A), (0xAB5C, 0xAB69), (0xAB70, 0xABE2),
      (0xABF0, 0xABF9), (0xAC00, 0xD7A3), (0xD7B0, 0xD7C6), (0xD7CB, 0xD7FB), (0xF900, 0xFA6D),
      (0xFA70, 0xFAD9), (0xFB00, 0xFB06), (0xFB13, 0xFB17), (0xFB1D, 0xFB1D), (0xFB1F, 0xFB28)]"

definition alnum_ranges_10 :: "(nat \<times> nat) list" where
  "alnum_ranges_10 =
     [(0xFB2A, 0xFB36), (0xFB38, 0xFB3C), (0xFB3E, 0xFB3E), (0xFB40, 0xFB41), (0xFB43, 0xFB44),
      (0xFB46, 0xFBB1), (0xFBD3, 0xFD3D), (0xFD50, 0xFD8F), (0xFD92, 0xFDC7), (0xFDF0, 0xFDFB),
      (0xFE70, 0xFE74), (0xFE76, 0xFEFC), (0xFF10, 0xFF19), (0xFF21, 0xFF3A), (0xFF41, 0xFF5A),
      (0xFF66, 0xFFBE), (0xFFC2, 0xFFC7), (0xFFCA, 0xFFCF), (0xFFD2, 0xFFD7), (0xFFDA, 0xFFDC),
      (0x10000, 0x1000B), (0x1000D, 0x10026), (0x10028, 0x1003A), (0x1003C, 0x1003D), (0x1003F, 0x1004D),
      (0x10050, 0x1005D), (0x10080, 0x100FA), (0x10107, 0x10133), (0x10140, 0x10178), (0x1018A, 0x1018B),
      (0x10280, 0x1029C), (0x102A0, 0x102D0), (0x102E1, 0x102FB), (0x10300, 0x10323), (0x1032D, 0x1034A),
      (0x10350, 0x10375), (0x10380, 0x1039D), (0x103A0, 0x103C3), (0x103C8, 0x103CF), (0x103D1, 0x103D5)]"

definition alnum_ranges_11 :: "(nat \<times> nat) list" where
  "alnum_ranges_11 =
     [(0x10400, 0x1049D), (0x104A0, 0x104A9), (0x104B0, 0x104D3), (0x104D8, 0x104FB), (0x10500, 0x10527),
      (0x10530, 0x10563), (0x10570, 0x1057A), (0x1057C, 0x1058A), (0x1058C, 0x10592), (0x10594, 0x10595),
      (0x10597, 0x105A1), (0x105A3, 0x105B1), (0x105B3, 0x105B9), (0x105BB, 0x105BC), (0x10600, 0x10736),
      (0x10740, 0x10755), (0x10760, 0x10767), (0x10780, 0x10785), (0x10787, 0x107B0), (0x107B2, 0x107BA),
      (0x10800, 0x10805), (0x10808, 0x10808), (0x1080A, 0x10835), (0x10837, 0x10838), (0x1083C, 0x1083C),
      (0x1083F, 0x10855), (0x10858, 0x10876), (0x10879, 0x1089E), (0x108A7, 0x108AF), (0x108E0, 0x108F2),
      (0x108F4, 0x108F5), (0x108FB, 0x1091B), (0x10920, 0x10939), (0x10980, 0x109B7), (0x109BC, 0x109CF),
      (0x109D2, 0x10A00), (0x10A10, 0x10A13), (0x10A15, 0x10A17), (0x10A19, 0x10A35), (0x10A40, 0x10A48)]"

definition alnum_ranges_12 :: "(nat \<times> nat) list" where
  "alnum_ranges_12 =
     [(0x10A60, 0x10A7E), (0x10A80, 0x10A9F), (0x10AC0, 0x10AC7), (0x10AC9, 0x10AE4), (0x10AEB, 0x10AEF),
      (0x10B00, 0x10B35), (0x10B40, 0x10B55), (0x10B58, 0x10B72), (0x10B78, 0x10B91), (0x10BA9, 0x10BAF),
      (0x10C00, 0x10C48), (0x10C80, 0x10CB2), (0x10CC0, 0x10CF2), (0x10CFA, 0x10D23), (0x10D30, 0x10D39),
      (0x10E60, 0x10E7E), (0x10E80, 0x10EA9), (0x10EB0, 0x10EB1), (0x10F00, 0x10F27), (0x10F30, 0x10F45),
      (0x10F51, 0x10F54), (0x10F70, 0x10F81), (0x10FB0, 0x10FCB), (0x10FE0, 0x10FF6), (0x11003, 0x11037),
      (0x11052, 0x1106F), (0x11071, 0x11072), (0x11075, 0x11075), (0x11083, 0x110AF), (0x110D0, 0x110E8),
      (0x110F0, 0x110F9), (0x11103, 0x11126), (0x11136, 0x1113F), (0x11144, 0x11144), (0x11147, 0x11147),
      (0x11150, 0x11172), (0x11176, 0x11176), (0x11183, 0x111B2), (0x111C1, 0x111C4), (0x111D0, 0x111DA)]"

definition alnum_ranges_13 :: "(nat \<times> nat) list" where
  "alnum_ranges_13 =
     [(0x111DC, 0x111DC), (0x111E1, 0x111F4), (0x11200, 0x11211), (0x11213, 0x1122B), (0x11280, 0x11286),
      (0x11288, 0x11288), (0x1128A, 0x1128D), (0x1128F, 0x1129D), (0x1129F, 0x112A8), (0x112B0, 0x112DE),
      (0x112F0, 0x112F9), (0x11305, 0x1130C), (0x1130F, 0x11310), (0x11313, 0x11328), (0x1132A, 0x11330),
      (0x11332, 0x11333), (0x11335, 0x11339), (0x1133D, 0x1133D), (0x11350, 0x11350), (0x1135D, 0x11361),
      (0x11400, 0x11434), (0x11447, 0x1144A), (0x11450, 0x11459), (0x1145F, 0x11461), (0x11480, 0x114AF),
      (0x114C4, 0x114C5), (0x114C7, 0x114C7), (0x114D0, 0x114D9), (0x11580, 0x115AE), (0x115D8, 0x115DB),
      (0x11600, 0x1162F), (0x11644, 0x11644), (0x11650, 0x11659), (0x11680, 0x116AA), (0x116B8, 0x116B8),
      (0x116C0, 0x116C9), (0x11700, 0x1171A), (0x11730, 0x1173B), (0x11740, 0x11746), (0x11800, 0x1182B)]"

definition alnum_ranges_14 :: "(nat \<times> nat) list" where
  "alnum_ranges_14 =
     [(0x118A0, 0x118F2), (0x118FF, 0x11906), (0x11909, 0x11909), (0x1190C, 0x11913), (0x11915, 0x11916),
      (0x11918, 0x1192F), (0x1193F, 0x1193F), (0x11941, 0x11941), (0x11950, 0x11959), (0x119A0, 0x119A7),
      (0x119AA, 0x119D0), (0x119E1, 0x119E1), (0x119E3, 0x119E3), (0x11A00, 0x11A00), (0x11A0B, 0x11A32),
      (0x11A3A, 0x11A3A), (0x11A50, 0x11A50), (0x11A5C, 0x11A89), (0x11A9D, 0x11A9D), (0x11AB0, 0x11AF8),
      (0x11C00, 0x11C08), (0x11C0A, 0x11C2E), (0x11C40, 0x11C40), (0x11C50, 0x11C6C), (0x11C72, 0x11C8F),
      (0x11D00, 0x11D06), (0x11D08, 0x11D09), (0x11D0B, 0x11D30), (0x11D46, 0x11D46), (0x11D50, 0x11D59),
      (0x11D60, 0x11D65), (0x11D67, 0x11D68), (0x11D6A, 0x11D89), (0x11D98, 0x11D98), (0x11DA0, 0x11DA9),
      (0x11EE0, 0x11EF2), (0x11FB0, 0x11FB0), (0x11FC0, 0x11FD4), (0x12000, 0x12399), (0x12400, 0x1246E)]"

definition alnum_ranges_15 :: "(nat \<times> nat) list" where
  "alnum_ranges_15 =
     [(0x12480, 0x12543), (0x12F90, 0x12FF0), (0x13000, 0x1342E), (0x14400, 0x14646), (0x16800, 0x16A38),
      (0x16A40, 0x16A5E), (0x16A60, 0x16A69), (0x16A70, 0x16ABE), (0x16AC0, 0x16AC9), (0x16AD0, 0x16AED),
      (0x16B00, 0x16B2F), (0x16B40, 0x16B43), (0x16B50, 0x16B59), (0x16B5B, 0x16B61), (0x16B63, 0x16B77),
      (0x16B7D, 0x16B8F), (0x16E40, 0x16E96), (0x16F00, 0x16F4A), (0x16F50, 0x16F50), (0x16F93, 0x16F9F),
      (0x16FE0, 0x16FE1), (0x16FE3, 0x16FE3), (0x17000, 0x187F7), (0x18800, 0x18CD5), (0x18D00, 0x18D08),
      (0x1AFF0, 0x1AFF3), (0x1AFF5, 0x1AFFB), (0x1AFFD, 0x1AFFE), (0x1B000, 0x1B122), (0x1B150, 0x1B152),
      (0x1B164, 0x1B167), (0x1B170, 0x1B2FB), (0x1BC00, 0x1BC6A), (0x1BC70, 0x1BC7C), (0x1BC80, 0x1BC88),
      (0x1BC90, 0x1BC99), (0x1D2E0, 0x1D2F3), (0x1D360, 0x1D378), (0x1D400, 0x1D454), (0x1D456, 0x1D49C)]"

definition alnum_ranges_16 :: "(nat \<times> nat) list" where
  "alnum_ranges_16 =
     [(0x1D49E, 0x1D49F), (0x1D4A2, 0x1D4A2), (0x1D4A5, 0x1D4A6), (0x1D4A9, 0x1D4AC), (0x1D4AE, 0x1D4B9),
      (0x1D4BB, 0x1D4BB), (0x1D4BD, 0x1D4C3), (0x1D4C5, 0x1D505), (0x1D507, 0x1D50A), (0x1D50D, 0x1D514),
      (0x1D516, 0x1D51C), (0x1D51E, 0x1D539), (0x1D53B, 0x1D53E), (0x1D540, 0x1D544), (0x1D546, 0x1D546),
      (0x1D54A, 0x1D550), (0x1D552, 0x1D6A5), (0x1D6A8, 0x1D6C0), (0x1D6C2, 0x1D6DA), (0x1D6DC, 0x1D6FA),
      (0x1D6FC, 0x1D714), (0x1D716, 0x1D734), (0x1D736, 0x1D74E), (0x1D750, 0x1D76E), (0x1D770, 0x1D788),
      (0x1D78A, 0x1D7A8), (0x1D7AA, 0x1D7C2), (0x1D7C4, 0x1D7CB), (0x1D7CE, 0x1D7FF), (0x1DF00, 0x1DF1E),
      (0x1E100, 0x1E12C), (0x1E137, 0x1E13D), (0x1E140, 0x1E149), (0x1E14E, 0x1E14E), (0x1E290, 0x1E2AD),
      (0x1E2C0, 0x1E2EB), (0x1E2F0, 0x1E2F9), (0x1E7E0, 0x1E7E6), (0x1E7E8, 0x1E7EB), (0x1E7ED, 0x1E7EE)]"

definition alnum_ranges_17 :: "(nat \<times> nat) list" where
  "alnum_ranges_17 =
     [(0x1E7F0, 0x1E7FE), (0x1E800, 0x1E8C4), (0x1E8C7, 0x1E8CF), (0x1E900, 0x1E943), (0x1E94B, 0x1E94B),
      (0x1E950, 0x1E959), (0x1EC71, 0x1ECAB), (0x1ECAD, 0x1ECAF), (0x1ECB1, 0x1ECB4), (0x1ED01, 0x1ED2D),
      (0x1ED2F, 0x1ED3D), (0x1EE00, 0x1EE03), (0x1EE05, 0x1EE1F), (0x1EE21, 0x1EE22), (0x1EE24, 0x1EE24),
      (0x1EE27, 0x1EE27), (0x1EE29, 0x1EE32), (0x1EE34, 0x1EE37), (0x1EE39, 0x1EE39), (0x1EE3B, 0x1EE3B),
      (0x1EE42, 0x1EE42), (0x1EE47, 0x1EE47), (0x1EE49, 0x1EE49), (0x1EE4B, 0x1EE4B), (0x1EE4D, 0x1EE4F),
      (0x1EE51, 0x1EE52), (0x1EE54, 0x1EE54), (0x1EE57, 0x1EE57), (0x1EE59, 0x1EE59), (0x1EE5B, 0x1EE5B),
      (0x1EE5D, 0x1EE5D), (0x1EE5F, 0x1EE5F), (0x1EE61, 0x1EE62), (0x1EE64, 0x1EE64), (0x1EE67, 0x1EE6A),
      (0x1EE6C, 0x1EE72), (0x1EE74, 0x1EE77), (0x1EE79, 0x1EE7C), (0x1EE7E, 0x1EE7E), (0x1EE80, 0x1EE89)]"

definition alnum_ranges_18 :: "(nat \<times> nat) list" where
  "alnum_ranges_18 =
     [(0x1EE8B, 0x1EE9B), (0x1EEA1, 0x1EEA3), (0x1EEA5, 0x1EEA9), (0x1EEAB, 0x1EEBB), (0x1F100, 0x1F10C),
      (0x1FBF0, 0x1FBF9), (0x20000, 0x2A6DF), (0x2A700, 0x2B738), (0x2B740, 0x2B81D), (0x2B820, 0x2CEA1),
      (0x2CEB0, 0x2EBE0), (0x2F800, 0x2FA1D), (0x30000, 0x3134A)]"

definition isalnum :: "nat \<Rightarrow> bool" where
  "isalnum c =
     (if c \<le> 0x710 then in_ranges c alnum_ranges_0
      else if c \<le> 0xA36 then in_ranges c alnum_ranges_1
      else if c \<le> 0xC0C then in_ranges c alnum_ranges_2
      else if c \<le> 0xE82 then in_ranges c alnum_ranges_3
      else if c \<le> 0x12BE then in_ranges c alnum_ranges_4
      else if c \<le> 0x1A89 then in_ranges c alnum_ranges_5
      else if c \<le> 0x2089 then in_ranges c alnum_ranges_6
      else if c \<le> 0x3035 then in_ranges c alnum_ranges_7
      else if c \<le> 0xA8FE then in_ranges c alnum_ranges_8
      else if c \<le> 0xFB28 then in_ranges c alnum_ranges_9
      else if c \<le> 0x103D5 then in_ranges c alnum_ranges_10
      else if c \<le> 0x10A48 then in_ranges c alnum_ranges_11
      else if c \<le> 0x111DA then in_ranges c alnum_ranges_12
      else if c \<le> 0x1182B then in_ranges c alnum_ranges_13
      else if c \<le> 0x1246E then in_ranges c alnum_ranges_14
      else if c \<le> 0x1D49C then in_ranges c alnum_ranges_15
      else if c \<le> 0x1E7EE then in_ranges c alnum_ranges_16
      else if c \<le> 0x1EE89 then in_ranges c alnum_ranges_17
      else in_ranges c alnum_ranges_18)"

definition decimal_ranges :: "(nat \<times> nat) list" where
  "decimal_ranges =
     [(0x30, 0x39), (0x660, 0x669), (0x6F0, 0x6F9), (0x7C0, 0x7C9), (0x966, 0x96F),
      (0x9E6, 0x9EF), (0xA66, 0xA6F), (0xAE6, 0xAEF), (0xB66, 0xB6F), (0xBE6, 0xBEF),
      (0xC66, 0xC6F), (0xCE6, 0xCEF), (0xD66, 0xD6F), (0xDE6, 0xDEF), (0xE50, 0xE59),
      (0xED0, 0xED9), (0xF20, 0xF29), (0x1040, 0x1049), (0x1090, 0x1099), (0x17E0, 0x17E9),
      (0x1810, 0x1819), (0x1946, 0x194F), (0x19D0, 0x19D9), (0x1A80, 0x1A89), (0x1A90, 0x1A99),
      (0x1B50, 0x1B59), (0x1BB0, 0x1BB9), (0x1C40, 0x1C49), (0x1C50, 0x1C59), (0xA620, 0xA629),
      (0xA8D0, 0xA8D9), (0xA900, 0xA909), (0xA9D0, 0xA9D9), (0xA9F0, 0xA9F9), (0xAA50, 0xAA59),
      (0xABF0, 0xABF9), (0xFF10, 0xFF19), (0x104A0, 0x104A9), (0x10D30, 0x10D39), (0x11066, 0x1106F),
      (0x110F0, 0x110F9), (0x11136, 0x1113F), (0x111D0, 0x111D9), (0x112F0, 0x112F9), (0x11450, 0x11459),
      (0x114D0, 0x114D9), (0x11650, 0x11659), (0x116C0, 0x116C9), (0x11730, 0x11739), (0x118E0, 0x118E9),
      (0x11950, 0x11959), (0x11C50, 0x11C59), (0x11D50, 0x11D59), (0x11DA0, 0x11DA9), (0x16A60, 0x16A69),
      (0x16AC0, 0x16AC9), (0x16B50, 0x16B59), (0x1D7CE, 0x1D7FF), (0x1E140, 0x1E149), (0x1E2F0, 0x1E2F9),
      (0x1E950, 0x1E959), (0x1FBF0, 0x1FBF9)]"

definition isdecimal :: "nat \<Rightarrow> bool" where
  "isdecimal c = in_ranges c decimal_ranges"

definition re_space :: "nat \<Rightarrow> bool" where
  "re_space c = isspace c"

definition re_word :: "nat \<Rightarrow> bool" where
  "re_word c = (isalnum c \<or> c = 0x5F)"

definition re_digit :: "nat \<Rightarrow> bool" where
  "re_digit c = isdecimal c"

subsection \<open>Methods of \<^verbatim>\<open>str\<close>\<close>

text \<open>
  \<^verbatim>\<open>s.replace(old, new)\<close> replaces the occurrences of \<open>old\<close> from left to right, without
  overlap; an empty \<open>old\<close> matches before every character and at the end.
\<close>

function str_replace :: "ustr \<Rightarrow> ustr \<Rightarrow> ustr \<Rightarrow> ustr" where
  "str_replace old new [] = (if old = [] then new else [])"
| "str_replace old new (c # cs) =
     (if old = [] then new @ c # str_replace old new cs
      else if prefix old (c # cs) then new @ str_replace old new (drop (length old) (c # cs))
      else c # str_replace old new cs)"
  by pat_completeness auto
termination
  by (relation "measure (\<lambda>(old, new, s). length s)") auto

definition str_strip :: "ustr \<Rightarrow> ustr" where
  "str_strip s = rev (dropWhile isspace (rev (dropWhile isspace s)))"

definition str_startswith :: "ustr \<Rightarrow> ustr \<Rightarrow> bool" where
  "str_startswith s p = prefix p s"

subsection \<open>Functions of \<^verbatim>\<open>re\<close>\<close>

text \<open>
  The patterns of the parser are character classes, repeated or not, and one lookbehind.
  \<open>re_sub_each P repl\<close> is \<^verbatim>\<open>re.sub\<close> for a pattern that matches one character of the
  class \<open>P\<close>. \<open>re_sub_repeat P k repl\<close> is \<^verbatim>\<open>re.sub\<close> for the greedy pattern
  \<^verbatim>\<open>[P]{k,}\<close> with \<open>1 \<le> k\<close> (\<^verbatim>\<open>[P]+\<close> is \<open>k = 1\<close>): the scan goes from left to right, a
  match takes the longest run of \<open>P\<close> that starts at the position, and the scan goes on
  behind the match; where there is no match the character is kept.
  In both the replacement \<open>repl\<close> is a string without a backslash, as the literals of
  the parser are: \<^verbatim>\<open>re.sub\<close> puts such a replacement in as it is.
\<close>

definition re_sub_each :: "(nat \<Rightarrow> bool) \<Rightarrow> ustr \<Rightarrow> ustr \<Rightarrow> ustr" where
  "re_sub_each P repl s = concat (map (\<lambda>c. if P c then repl else [c]) s)"

function re_sub_repeat :: "(nat \<Rightarrow> bool) \<Rightarrow> nat \<Rightarrow> ustr \<Rightarrow> ustr \<Rightarrow> ustr" where
  "re_sub_repeat P k repl [] = []"
| "re_sub_repeat P k repl (c # cs) =
     (if P c \<and> k \<le> length (takeWhile P (c # cs))
      then repl @ re_sub_repeat P k repl (dropWhile P (c # cs))
      else c # re_sub_repeat P k repl cs)"
  by pat_completeness auto
termination
  by (relation "measure (\<lambda>(P, k, repl, s). length s)")
     (auto simp: less_Suc_eq_le length_dropWhile_le)

subsection \<open>The replacement of \<^verbatim>\<open>re.sub\<close>\<close>

text \<open>
  \<^verbatim>\<open>re.sub\<close> reads its replacement as a template, here as CPython 3.11 does it
  (\<^verbatim>\<open>parse_template\<close> and \<^verbatim>\<open>expand_template\<close> of the module): a backslash starts an
  escape, every other character stands for itself. The patterns of the parser have no
  group, so the only reference that a template can make is to the whole match, written
  \<^verbatim>\<open>\g<0>\<close>. The template is read before the text is searched, so a template that is
  refused makes \<^verbatim>\<open>re.sub\<close> raise for every text. The exception is \<^verbatim>\<open>re.error\<close>, or
  \<^verbatim>\<open>IndexError\<close> where the template names a group; both are \<open>TemplateError\<close> here.
  \<open>ValueError\<close> is what \<^verbatim>\<open>get_chapters\<close> itself raises, with its message.
\<close>

datatype error = ValueError ustr | TemplateError

datatype piece = Literal nat | Group

definition is_octdigit :: "nat \<Rightarrow> bool" where
  "is_octdigit c = (0x30 \<le> c \<and> c \<le> 0x37)"

definition is_asciidigit :: "nat \<Rightarrow> bool" where
  "is_asciidigit c = (0x30 \<le> c \<and> c \<le> 0x39)"

definition is_asciiletter :: "nat \<Rightarrow> bool" where
  "is_asciiletter c = ((0x41 \<le> c \<and> c \<le> 0x5A) \<or> (0x61 \<le> c \<and> c \<le> 0x7A))"

text \<open>The escapes \<^verbatim>\<open>\a \b \f \n \r \t \v \\\<close> and the characters they stand for.\<close>

definition template_escapes :: "(nat \<times> nat) list" where
  "template_escapes =
     [(0x61, 0x07), (0x62, 0x08), (0x66, 0x0C), (0x6E, 0x0A), (0x72, 0x0D), (0x74, 0x09),
      (0x76, 0x0B), (0x5C, 0x5C)]"

definition octal_value :: "ustr \<Rightarrow> nat" where
  "octal_value ds = foldl (\<lambda>v d. 8 * v + (d - 0x30)) 0 ds"

text \<open>
  The name in \<^verbatim>\<open>\g<name>\<close> is accepted if and only if \<^verbatim>\<open>int(name)\<close> is \<open>0\<close>: whitespace
  at both ends, one sign, and then digits of value zero (of any script) with single
  underscores between them, at most 4300 digits. A digit of value zero is the first of
  each ten of a range of decimal digits.
\<close>

fun range_offset :: "nat \<Rightarrow> (nat \<times> nat) list \<Rightarrow> nat option" where
  "range_offset c [] = None"
| "range_offset c ((lo, hi) # rs) =
     (if c < lo then None else if c \<le> hi then Some (c - lo) else range_offset c rs)"

definition is_zero_digit :: "nat \<Rightarrow> bool" where
  "is_zero_digit c =
     (case range_offset c decimal_ranges of None \<Rightarrow> False | Some d \<Rightarrow> d mod 10 = 0)"

definition int_space :: "nat \<Rightarrow> bool" where
  "int_space c = ((0x09 \<le> c \<and> c \<le> 0x0D) \<or> c = 0x20 \<or> (0x7F \<le> c \<and> isspace c))"

fun zeros_tail :: "ustr \<Rightarrow> bool" where
  "zeros_tail [] = True"
| "zeros_tail [c] = is_zero_digit c"
| "zeros_tail (c # d # ds) =
     (if is_zero_digit c then zeros_tail (d # ds)
      else c = 0x5F \<and> is_zero_digit d \<and> zeros_tail ds)"

definition zero_digits :: "ustr \<Rightarrow> bool" where
  "zero_digits s = (case s of [] \<Rightarrow> False | c # cs \<Rightarrow> is_zero_digit c \<and> zeros_tail cs)"

definition int_is_zero :: "ustr \<Rightarrow> bool" where
  "int_is_zero name =
     (let unsigned = (case dropWhile int_space name of
                        [] \<Rightarrow> []
                      | c # cs \<Rightarrow> if c = 0x2B \<or> c = 0x2D then cs else c # cs);
          digits = rev (dropWhile int_space (rev unsigned))
      in zero_digits digits \<and> length (filter is_zero_digit digits) \<le> 4300)"

definition add_pieces :: "piece list \<Rightarrow> error + piece list \<Rightarrow> error + piece list" where
  "add_pieces ps r = (case r of Inl e \<Rightarrow> Inl e | Inr qs \<Rightarrow> Inr (ps @ qs))"

function parse_template :: "ustr \<Rightarrow> error + piece list" where
  "parse_template [] = Inr []"
| "parse_template (c # cs) =
     (if c \<noteq> 0x5C then add_pieces [Literal c] (parse_template cs)
      else case cs of
        [] \<Rightarrow> Inl TemplateError
      | e # rest \<Rightarrow>
          if e = 0x67 then
            (if rest \<noteq> [] \<and> hd rest = 0x3C \<and> 0x3E \<in> set (tl rest) \<and>
                int_is_zero (takeWhile (\<lambda>x. x \<noteq> 0x3E) (tl rest))
             then add_pieces [Group]
                    (parse_template (tl (dropWhile (\<lambda>x. x \<noteq> 0x3E) (tl rest))))
             else Inl TemplateError)
          else if e = 0x30 then
            add_pieces
              [Literal (octal_value (takeWhile is_octdigit (take 2 rest)))]
              (parse_template (drop (length (takeWhile is_octdigit (take 2 rest))) rest))
          else if is_asciidigit e then
            (if 2 \<le> length rest \<and> octal_value (e # take 2 rest) \<le> 0xFF \<and>
                list_all is_octdigit (e # take 2 rest)
             then add_pieces [Literal (octal_value (e # take 2 rest))]
                    (parse_template (drop 2 rest))
             else Inl TemplateError)
          else (case map_of template_escapes e of
                  Some x \<Rightarrow> add_pieces [Literal x] (parse_template rest)
                | None \<Rightarrow>
                    if is_asciiletter e then Inl TemplateError
                    else add_pieces [Literal 0x5C, Literal e] (parse_template rest)))"
  by pat_completeness auto
termination
proof (relation "measure length", goal_cases)
  case (3 c cs e rest)
  have "length (tl (dropWhile (\<lambda>x. x \<noteq> 0x3E) (tl rest))) \<le> length (dropWhile (\<lambda>x. x \<noteq> 0x3E) (tl rest))"
    by simp
  also have "\<dots> \<le> length (tl rest)"
    by (rule length_dropWhile_le)
  finally show ?case using 3 by simp
qed (auto simp: less_Suc_eq_le)

definition expand_template :: "piece list \<Rightarrow> ustr \<Rightarrow> ustr" where
  "expand_template t m = concat (map (\<lambda>p. case p of Literal c \<Rightarrow> [c] | Group \<Rightarrow> m) t)"

text \<open>
  \<^verbatim>\<open>re.sub\<close> for the pattern \<^verbatim>\<open>[P]{k,}\<close> and a template: as \<open>re_sub_repeat\<close>, with the
  expansion of the template for the match in the place of the match.
\<close>

function re_sub_repeat_template :: "(nat \<Rightarrow> bool) \<Rightarrow> nat \<Rightarrow> piece list \<Rightarrow> ustr \<Rightarrow> ustr" where
  "re_sub_repeat_template P k t [] = []"
| "re_sub_repeat_template P k t (c # cs) =
     (if P c \<and> k \<le> length (takeWhile P (c # cs))
      then expand_template t (takeWhile P (c # cs)) @
           re_sub_repeat_template P k t (dropWhile P (c # cs))
      else c # re_sub_repeat_template P k t cs)"
  by pat_completeness auto
termination
  by (relation "measure (\<lambda>(P, k, t, s). length s)")
     (auto simp: less_Suc_eq_le length_dropWhile_le)

text \<open>\<^verbatim>\<open>re.split\<close> on a one-character class: the pieces between the separators, empty ones kept.\<close>

fun re_split :: "(nat \<Rightarrow> bool) \<Rightarrow> ustr \<Rightarrow> ustr list" where
  "re_split P [] = [[]]"
| "re_split P (c # cs) =
     (if P c then [] # re_split P cs
      else (c # hd (re_split P cs)) # tl (re_split P cs))"

definition re_search :: "(nat \<Rightarrow> bool) \<Rightarrow> ustr \<Rightarrow> bool" where
  "re_search P s = list_ex P s"

section \<open>The parsed document\<close>

text \<open>
  \<^verbatim>\<open>BeautifulSoup(content, "lxml")\<close> turns the bytes of a document item into a tree. The
  parser is a library; a document item is modelled by the tree it is parsed into: the list
  of the children of the \<^verbatim>\<open>BeautifulSoup\<close> object (whose own name is \<^verbatim>\<open>[document]\<close>).
  A node is a tag with its name, attributes and children, or a string. \<^verbatim>\<open>get_text\<close>
  yields the strings of the classes \<^verbatim>\<open>NavigableString\<close> and \<^verbatim>\<open>CData\<close> only; comments,
  doctypes, declarations and processing instructions are \<open>OtherString\<close>.
\<close>

datatype node =
    Tag (name: ustr) (attrs: "(ustr \<times> ustr) list") (contents: "node list")
  | NavigableString ustr
  | OtherString ustr

type_synonym soup = "node list"

text \<open>
  \<^verbatim>\<open>for tag in soup.find_all(m): tag.decompose()\<close>: every tag below the root that matches
  is taken out of the tree with its subtree (a match inside a match is already gone when
  its turn comes).
\<close>

fun name_in :: "ustr list \<Rightarrow> node \<Rightarrow> bool" where
  "name_in names (Tag n a cs) = (n \<in> set names)"
| "name_in names _ = False"

fun has_attr :: "ustr \<Rightarrow> ustr \<Rightarrow> node \<Rightarrow> bool" where
  "has_attr nm key (Tag n a cs) = (n = nm \<and> key \<in> fst ` set a)"
| "has_attr nm key _ = False"

fun decompose_in :: "(node \<Rightarrow> bool) \<Rightarrow> node \<Rightarrow> node" where
  "decompose_in m (Tag n a cs) = Tag n a (map (decompose_in m) (filter (\<lambda>c. \<not> m c) cs))"
| "decompose_in m (NavigableString s) = NavigableString s"
| "decompose_in m (OtherString s) = OtherString s"

definition decompose_all :: "(node \<Rightarrow> bool) \<Rightarrow> soup \<Rightarrow> soup" where
  "decompose_all m soup = map (decompose_in m) (filter (\<lambda>c. \<not> m c) soup)"

text \<open>\<^verbatim>\<open>soup.find(name)\<close>: the first tag of that name in document order, if there is one.\<close>

fun first_some :: "'a option list \<Rightarrow> 'a option" where
  "first_some [] = None"
| "first_some (Some x # xs) = Some x"
| "first_some (None # xs) = first_some xs"

fun find_in :: "ustr \<Rightarrow> node \<Rightarrow> node option" where
  "find_in nm (Tag n a cs) =
     (if n = nm then Some (Tag n a cs) else first_some (map (find_in nm) cs))"
| "find_in nm (NavigableString s) = None"
| "find_in nm (OtherString s) = None"

definition soup_find :: "ustr \<Rightarrow> soup \<Rightarrow> node option" where
  "soup_find nm soup = first_some (map (find_in nm) soup)"

text \<open>\<^verbatim>\<open>tag.text\<close> and \<^verbatim>\<open>soup.get_text(strip=False)\<close>: the strings in document order, joined.\<close>

fun node_text :: "node \<Rightarrow> ustr" where
  "node_text (Tag n a cs) = concat (map node_text cs)"
| "node_text (NavigableString s) = s"
| "node_text (OtherString s) = []"

definition get_text :: "soup \<Rightarrow> ustr" where
  "get_text soup = concat (map node_text soup)"

section \<open>The parser\<close>

record general_config =
  newline_mode :: ustr
  remove_endnotes :: bool
  language :: ustr

subsection \<open>\<^verbatim>\<open>prep_text\<close>\<close>

text \<open>
  The chain of \<^verbatim>\<open>replace\<close> calls, in its order, as pairs of code point sequences, and
  the final \<^verbatim>\<open>strip\<close>. The literals that are not ASCII are written as the source file has
  them.
\<close>

definition prep_text_replacements :: "(ustr \<times> ustr) list" where
  "prep_text_replacements =
     [(str ''--'', str '', ''),
      ([0x432, 0x496, 0x201D], str '', ''),
      (str '';'', str '', ''),
      (str '':'', str '', ''),
      ([0x27, 0x27], str '', ''),
      ([0x432, 0x496, 0x4B7], [0x27]),
      ([0x432, 0x496, 0x4A3], [0x22]),
      ([0x432, 0x496, 0x49B], [0x22]),
      ([0x432, 0x2014, 0x4AE], []),
      ([0x412, 0xA0, 0x2E, 0x412, 0xA0, 0x2E, 0x412, 0xA0, 0x2E, 0x20], str '', ''),
      (str ''... '', str '', ''),
      ([0x412, 0xAB], str '' ''),
      ([0x412, 0xBB], str '' ''),
      (str ''['', []),
      (str '']'', []),
      (str ''&'', str '' and ''),
      (str '' GNU '', str '' new ''),
      ([0x0A], [0x20, 0x0A]),
      (str ''*'', str '' '')]"

definition prep_text :: "ustr \<Rightarrow> ustr" where
  "prep_text text_in =
     str_strip (foldl (\<lambda>text (old, new). str_replace old new text) text_in prep_text_replacements)"

subsection \<open>The excluded tags\<close>

definition blacklist :: "ustr list" where
  "blacklist =
     [str ''[document]'', str ''noscript'', str ''header'', str ''html'', str ''meta'',
      str ''head'', str ''input'', str ''script'', str ''pre'', str ''code'']"

subsection \<open>\<^verbatim>\<open>_sanitize_title\<close>\<close>

definition sanitize_title :: "ustr \<Rightarrow> ustr \<Rightarrow> ustr" where
  "sanitize_title title break_string =
     (let title1 = str_replace break_string (str '' '') title;
          sanitized_title = re_sub_each (\<lambda>c. \<not> (re_word c \<or> re_space c)) [] title1
      in re_sub_repeat re_space 1 (str ''_'') (str_strip sanitized_title))"

subsection \<open>\<^verbatim>\<open>get_chapters\<close>\<close>

definition title_levels :: "ustr list" where
  "title_levels = [str ''title'', str ''h1'', str ''h2'', str ''h3'']"

fun find_title :: "ustr list \<Rightarrow> soup \<Rightarrow> ustr" where
  "find_title [] soup = []"
| "find_title (level # levels) soup =
     (case soup_find level soup of
        Some t \<Rightarrow> node_text t
      | None \<Rightarrow> find_title levels soup)"

definition is_newline :: "nat \<Rightarrow> bool" where
  "is_newline c = (c = 0x0A)"

text \<open>
  The choice by \<^verbatim>\<open>newline_mode\<close>, with its \<^verbatim>\<open>raise ValueError\<close>. The break string is the
  replacement of \<^verbatim>\<open>re.sub\<close>, which reads it as a template and raises if it refuses it.
\<close>

definition re_sub_newlines :: "nat \<Rightarrow> ustr \<Rightarrow> ustr \<Rightarrow> error + ustr" where
  "re_sub_newlines k break_string s =
     (case parse_template break_string of
        Inl e \<Rightarrow> Inl e
      | Inr t \<Rightarrow> Inr (re_sub_repeat_template is_newline k t s))"

definition collapse_newlines :: "ustr \<Rightarrow> ustr \<Rightarrow> ustr \<Rightarrow> error + ustr" where
  "collapse_newlines mode break_string raw =
     (if mode = str ''single'' then re_sub_newlines 1 break_string (str_strip raw)
      else if mode = str ''double'' then re_sub_newlines 2 break_string (str_strip raw)
      else Inl (ValueError (str ''Invalid newline mode: '' @ mode)))"

definition squash_whitespace :: "ustr \<Rightarrow> ustr" where
  "squash_whitespace s = re_sub_repeat re_space 1 (str '' '') s"

text \<open>
  The end-note pattern is a lookbehind on one character of the class
  \<^verbatim>\<open>[a-zA-Z.,!?;...")]\<close> (the three code points in the middle are those of the source
  file) before \<^verbatim>\<open>\d+\<close>. The scan carries the character before the position.
\<close>

definition endnote_lookbehind :: "nat \<Rightarrow> bool" where
  "endnote_lookbehind c =
     ((0x61 \<le> c \<and> c \<le> 0x7A) \<or> (0x41 \<le> c \<and> c \<le> 0x5A) \<or>
      c \<in> set [0x2E, 0x2C, 0x21, 0x3F, 0x3B, 0x432, 0x496, 0x49B, 0x22, 0x29])"

function re_sub_endnotes :: "nat option \<Rightarrow> ustr \<Rightarrow> ustr" where
  "re_sub_endnotes prev [] = []"
| "re_sub_endnotes prev (c # cs) =
     (if (case prev of None \<Rightarrow> False | Some p \<Rightarrow> endnote_lookbehind p) \<and> re_digit c
      then re_sub_endnotes (Some (last (takeWhile re_digit (c # cs)))) (dropWhile re_digit (c # cs))
      else c # re_sub_endnotes (Some c) cs)"
  by pat_completeness auto
termination
  by (relation "measure (\<lambda>(prev, s). length s)")
     (auto simp: less_Suc_eq_le length_dropWhile_le)

definition strip_endnotes :: "ustr \<Rightarrow> ustr" where
  "strip_endnotes s = re_sub_endnotes None s"

text \<open>
  The Chinese branch: the text is split once, then each sentence that has a character of
  the range from U+4E00 to U+9FA5 is replaced, wherever it occurs in the current text, by itself
  without whitespace. The separator class is a parameter here; \<open>sentence_end\<close> is the
  class of the source file.
\<close>

definition is_cjk :: "nat \<Rightarrow> bool" where
  "is_cjk c = (0x4E00 \<le> c \<and> c \<le> 0x9FA5)"

definition sentence_end :: "nat \<Rightarrow> bool" where
  "sentence_end c = (c \<in> set [0x433, 0x496, 0x4EE, 0x43F, 0x458, 0x4B9, 0x43F, 0x458, 0x492])"

fun replace_sentences :: "ustr list \<Rightarrow> ustr \<Rightarrow> ustr" where
  "replace_sentences [] cleaned_text = cleaned_text"
| "replace_sentences (sentence # sentences) cleaned_text =
     replace_sentences sentences
       (if re_search is_cjk sentence
        then str_replace sentence (re_sub_repeat re_space 1 [] sentence) cleaned_text
        else cleaned_text)"

definition remove_cjk_spaces :: "(nat \<Rightarrow> bool) \<Rightarrow> ustr \<Rightarrow> ustr" where
  "remove_cjk_spaces sep cleaned_text = replace_sentences (re_split sep cleaned_text) cleaned_text"

text \<open>The body of the loop for one document item, from the parsed tree to the pair.\<close>

definition chapter_of :: "general_config \<Rightarrow> ustr \<Rightarrow> soup \<Rightarrow> error + (ustr \<times> ustr)" where
  "chapter_of config break_string soup0 =
     (let soup1 = decompose_all (name_in blacklist) soup0;
          soup = decompose_all (has_attr (str ''a'') (str ''href'')) soup1;
          title = find_title title_levels soup;
          raw = prep_text (get_text soup)
      in case collapse_newlines (newline_mode config) break_string raw of
           Inl e \<Rightarrow> Inl e
         | Inr cleaned1 \<Rightarrow>
             (let cleaned2 = squash_whitespace cleaned1;
                  cleaned3 = (if remove_endnotes config then strip_endnotes cleaned2 else cleaned2);
                  cleaned_text = (if str_startswith (language config) (str ''zh'')
                                  then remove_cjk_spaces sentence_end cleaned3 else cleaned3);
                  title1 = (if title = [] then take 60 cleaned_text else title)
              in Inr (sanitize_title title1 break_string, cleaned_text)))"

text \<open>The loop over the document items; an error leaves it at once.\<close>

fun get_chapters_loop ::
  "general_config \<Rightarrow> ustr \<Rightarrow> soup list \<Rightarrow> (ustr \<times> ustr) list \<Rightarrow> error + (ustr \<times> ustr) list" where
  "get_chapters_loop config break_string [] chapters = Inr chapters"
| "get_chapters_loop config break_string (item # items) chapters =
     (case chapter_of config break_string item of
        Inl e \<Rightarrow> Inl e
      | Inr chapter \<Rightarrow> get_chapters_loop config break_string items (chapters @ [chapter]))"

definition get_chapters :: "general_config \<Rightarrow> ustr \<Rightarrow> soup list \<Rightarrow> error + (ustr \<times> ustr) list" where
  "get_chapters config break_string items = get_chapters_loop config break_string items []"

section \<open>Notions of the properties\<close>

text \<open>The tree after the two \<^verbatim>\<open>decompose\<close> loops of \<^verbatim>\<open>get_chapters\<close>.\<close>

definition filtered :: "soup \<Rightarrow> soup" where
  "filtered soup =
     decompose_all (has_attr (str ''a'') (str ''href'')) (decompose_all (name_in blacklist) soup)"

text \<open>
  A tree rooted at an \<^verbatim>\<open>html\<close> element, as the lxml tree builder makes it: at the top
  there is the \<^verbatim>\<open>html\<close> tag, and beside it only strings that are not text (a doctype, a
  comment, a processing instruction) and strings of whitespace (the newline behind the
  closing tag). \<open>blank_or_other\<close> is a node that is no tag and has no text but whitespace.
\<close>

fun html_or_blank :: "node \<Rightarrow> bool" where
  "html_or_blank (Tag n a cs) = (n = str ''html'')"
| "html_or_blank (NavigableString s) = list_all isspace s"
| "html_or_blank (OtherString s) = True"

fun blank_or_other :: "node \<Rightarrow> bool" where
  "blank_or_other (Tag n a cs) = False"
| "blank_or_other (NavigableString s) = list_all isspace s"
| "blank_or_other (OtherString s) = True"

fun is_navigable_string :: "node \<Rightarrow> bool" where
  "is_navigable_string (NavigableString s) = True"
| "is_navigable_string _ = False"

definition rooted_at_html :: "soup \<Rightarrow> bool" where
  "rooted_at_html soup = (list_ex (name_in [str ''html'']) soup \<and> list_all html_or_blank soup)"

text \<open>
  A document with a doctype, a head with a title, a body, and a newline behind the
  \<^verbatim>\<open>html\<close> element.
\<close>

definition rooted_example :: soup where
  "rooted_example =
     [OtherString (str ''html''),
      Tag (str ''html'') []
        [Tag (str ''head'') [] [Tag (str ''title'') [] [NavigableString (str ''One'')]],
         Tag (str ''body'') [] [Tag (str ''p'') [] [NavigableString (str ''Text.'')]]],
      NavigableString [0x0A]]"

text \<open>
  The document \<^verbatim>\<open><h1>Chapter One</h1><p>He said--"Hello;there."</p>\<close>: its two elements,
  and the tree the lxml tree builder makes of it, which puts them into \<^verbatim>\<open>html\<close> and
  \<^verbatim>\<open>body\<close>.
\<close>

definition example_heading :: node where
  "example_heading = Tag (str ''h1'') [] [NavigableString (str ''Chapter One'')]"

definition example_paragraph :: node where
  "example_paragraph =
     Tag (str ''p'') [] [NavigableString (str ''He said--'' @ [0x22] @ str ''Hello;there.'' @ [0x22])]"

definition example_lxml :: soup where
  "example_lxml = [Tag (str ''html'') [] [Tag (str ''body'') [] [example_heading, example_paragraph]]]"

definition example_config :: general_config where
  "example_config = \<lparr>newline_mode = str ''single'', remove_endnotes = False, language = str ''en''\<rparr>"

text \<open>
  The nodes of a tree in document order, as \<^verbatim>\<open>find\<close> walks them, and the first tag of a
  name among them.
\<close>

fun descendants_of :: "node \<Rightarrow> node list" where
  "descendants_of (Tag n a cs) = Tag n a cs # concat (map descendants_of cs)"
| "descendants_of (NavigableString s) = [NavigableString s]"
| "descendants_of (OtherString s) = [OtherString s]"

definition descendants :: "soup \<Rightarrow> node list" where
  "descendants soup = concat (map descendants_of soup)"

definition first_tag :: "ustr \<Rightarrow> soup \<Rightarrow> node option" where
  "first_tag nm soup = List.find (name_in [nm]) (descendants soup)"

text \<open>
  A break marker that \<^verbatim>\<open>re.sub\<close> takes literally: the template that it is read as is
  the marker's own characters.
\<close>

definition literal_marker :: "ustr \<Rightarrow> bool" where
  "literal_marker b = (parse_template b = Inr (map Literal b))"

text \<open>Documents with a heading of the second level, without a heading, and with newlines.\<close>

definition heading_example :: soup where
  "heading_example =
     [Tag (str ''h2'') [] [NavigableString (str ''Part Two'')],
      Tag (str ''p'') [] [NavigableString (str ''Text here.'')]]"

definition no_heading_example :: soup where
  "no_heading_example = [Tag (str ''p'') [] [NavigableString (str ''No heading: here!'')]]"

definition newline_example :: soup where
  "newline_example = [Tag (str ''p'') [] [NavigableString (str ''a'' @ [0x0A, 0x0A] @ str ''b'')]]"

text \<open>
  The characters that the specification lists before an end-note number: a Latin letter,
  period, comma, exclamation mark, question mark, semicolon, the double quote, and the
  three code points that the source file has for the mis-encoded closing quote.
\<close>

definition claimed_endnote_prefix :: "nat \<Rightarrow> bool" where
  "claimed_endnote_prefix c =
     ((0x61 \<le> c \<and> c \<le> 0x7A) \<or> (0x41 \<le> c \<and> c \<le> 0x5A) \<or>
      c \<in> set [0x2E, 0x2C, 0x21, 0x3F, 0x3B, 0x22, 0x432, 0x496, 0x49B])"

text \<open>
  The steps of the title sanitizer in the order in which the specification lists them: the
  whitespace runs become underscores first, and then underscores are stripped at both ends.
\<close>

definition sanitize_title_spec :: "ustr \<Rightarrow> ustr \<Rightarrow> ustr" where
  "sanitize_title_spec title break_string =
     (let replaced = str_replace break_string (str '' '') title;
          kept = filter (\<lambda>c. re_word c \<or> re_space c) replaced;
          joined = re_sub_repeat re_space 1 (str ''_'') kept
      in rev (dropWhile (\<lambda>c. c = 0x5F) (rev (dropWhile (\<lambda>c. c = 0x5F) joined))))"

text \<open>A string without its whitespace.\<close>

definition remove_spaces :: "ustr \<Rightarrow> ustr" where
  "remove_spaces s = filter (\<lambda>c. \<not> re_space c) s"

text \<open>
  The three sentence marks that the specification names for the Chinese branch: the
  ideographic full stop and the fullwidth question and exclamation marks.
\<close>

definition claimed_sentence_end :: "nat \<Rightarrow> bool" where
  "claimed_sentence_end c = (c \<in> set [0x3002, 0xFF1F, 0xFF01])"

text \<open>
  Texts for the Chinese branch, with U+043F of the source's separator class between the
  sentences of the first two, and with the ideographic full stop in the third.
\<close>

definition cjk_example :: ustr where
  "cjk_example =
     [0x61, 0x20, 0x62, 0x43F, 0x4E2D, 0x20, 0x6587, 0x20, 0x5B57, 0x43F, 0x4E2D, 0x20, 0x6587]"

definition cjk_collision_example :: ustr where
  "cjk_collision_example = [0x4E2D, 0x20, 0x6587, 0x43F, 0x4E2D, 0x20, 0x6587, 0x20, 0x5B57]"

definition cjk_mark_example :: ustr where
  "cjk_mark_example = [0x4E2D, 0x20, 0x6587, 0x3002, 0x61, 0x20, 0x62]"

text \<open>A text in which no two newlines are adjacent.\<close>

fun newlines_apart :: "ustr \<Rightarrow> bool" where
  "newlines_apart [] = True"
| "newlines_apart [c] = True"
| "newlines_apart (c # d # cs) = (\<not> (is_newline c \<and> is_newline d) \<and> newlines_apart (d # cs))"

section \<open>Properties\<close>

subsection \<open>The loop of \<^verbatim>\<open>get_chapters\<close>\<close>

lemma get_chapters_loop_Inr:
  "get_chapters_loop config b items acc = Inr chs \<Longrightarrow>
     \<exists>new. chs = acc @ new \<and> length new = length items \<and>
       (\<forall>i<length items. chapter_of config b (items ! i) = Inr (new ! i))"
proof (induction items arbitrary: acc)
  case Nil
  then show ?case by simp
next
  case (Cons item items)
  from Cons.prems obtain ch where ch: "chapter_of config b item = Inr ch"
    and rest: "get_chapters_loop config b items (acc @ [ch]) = Inr chs"
    by (auto split: sum.splits)
  from Cons.IH [OF rest] obtain new where new: "chs = (acc @ [ch]) @ new"
    "length new = length items" "\<forall>i<length items. chapter_of config b (items ! i) = Inr (new ! i)"
    by blast
  have "\<forall>i<length (item # items). chapter_of config b ((item # items) ! i) = Inr ((ch # new) ! i)"
    using ch new(3) by (auto simp: nth_Cons split: nat.splits)
  with new show ?case by (intro exI [of _ "ch # new"]) simp
qed

lemma chapter_of_invalid_mode:
  "newline_mode config \<noteq> str ''single'' \<Longrightarrow> newline_mode config \<noteq> str ''double'' \<Longrightarrow>
   chapter_of config b soup = Inl (ValueError (str ''Invalid newline mode: '' @ newline_mode config))"
  by (simp add: chapter_of_def collapse_newlines_def Let_def)

lemma chapter_of_valid_mode:
  assumes "newline_mode config = str ''single'' \<or> newline_mode config = str ''double''"
    and "parse_template b = Inr t"
  shows "\<exists>ch. chapter_of config b soup = Inr ch"
  using assms by (auto simp: chapter_of_def collapse_newlines_def re_sub_newlines_def Let_def)

lemma chapter_of_rejected:
  assumes "newline_mode config = str ''single'' \<or> newline_mode config = str ''double''"
    and "parse_template b = Inl e"
  shows "chapter_of config b soup = Inl e"
  using assms by (auto simp: chapter_of_def collapse_newlines_def re_sub_newlines_def Let_def)

lemma get_chapters_loop_valid:
  assumes "newline_mode config = str ''single'' \<or> newline_mode config = str ''double''"
    and "parse_template b = Inr t"
  shows "\<exists>chs. get_chapters_loop config b items acc = Inr chs"
proof (induction items arbitrary: acc)
  case Nil
  then show ?case by simp
next
  case (Cons item items)
  from chapter_of_valid_mode [OF assms] obtain ch where "chapter_of config b item = Inr ch"
    by blast
  with Cons.IH show ?case by simp
qed

subsection \<open>An unsupported newline mode\<close>

text \<open>
  C6, as the code has it. The mode is looked at inside the loop, once per document item.
  With a mode other than \<^verbatim>\<open>single\<close> and \<^verbatim>\<open>double\<close> and at least one document item,
  \<^verbatim>\<open>get_chapters\<close> fails at the first item with the \<^verbatim>\<open>ValueError\<close> whose message is
  \<^verbatim>\<open>Invalid newline mode: \<close> followed by the mode, and returns no chapter pair. With no
  document item the loop body never runs and the result is the empty list, without an
  error.
\<close>

theorem get_chapters_invalid_mode:
  assumes "newline_mode config \<noteq> str ''single''" and "newline_mode config \<noteq> str ''double''"
  shows "get_chapters config b items =
    (if items = [] then Inr []
     else Inl (ValueError (str ''Invalid newline mode: '' @ newline_mode config)))"
  using assms by (cases items) (simp_all add: get_chapters_def chapter_of_invalid_mode)

text \<open>The theorem at the mode \<^verbatim>\<open>triple\<close> and one document item.\<close>

theorem get_chapters_invalid_mode_witness:
  "newline_mode \<lparr>newline_mode = str ''triple'', remove_endnotes = False, language = str ''en''\<rparr>
     \<noteq> str ''single'' \<and>
   newline_mode \<lparr>newline_mode = str ''triple'', remove_endnotes = False, language = str ''en''\<rparr>
     \<noteq> str ''double'' \<and>
   get_chapters \<lparr>newline_mode = str ''triple'', remove_endnotes = False, language = str ''en''\<rparr>
     (str '' @BRK#'') [[NavigableString (str ''a'')]] =
   Inl (ValueError (str ''Invalid newline mode: triple''))"
proof -
  have 1: "newline_mode \<lparr>newline_mode = str ''triple'', remove_endnotes = False,
    language = str ''en''\<rparr> \<noteq> str ''single''"
    by (simp add: str_def)
  have 2: "newline_mode \<lparr>newline_mode = str ''triple'', remove_endnotes = False,
    language = str ''en''\<rparr> \<noteq> str ''double''"
    by (simp add: str_def)
  show ?thesis
    using 1 2 get_chapters_invalid_mode [OF 1 2, of "str '' @BRK#''" "[[NavigableString (str ''a'')]]"]
    by (simp add: str_def)
qed

text \<open>
  C6 as it is written fails where there is no document item: the mode \<^verbatim>\<open>triple\<close> is
  neither \<^verbatim>\<open>single\<close> nor \<^verbatim>\<open>double\<close>, and \<^verbatim>\<open>get_chapters\<close> returns the empty list
  instead of failing.
\<close>

theorem get_chapters_invalid_mode_counterexample:
  "str ''triple'' \<noteq> str ''single'' \<and> str ''triple'' \<noteq> str ''double'' \<and>
   get_chapters \<lparr>newline_mode = str ''triple'', remove_endnotes = False, language = str ''en''\<rparr>
     (str '' @BRK#'') [] = Inr []"
  by (simp add: get_chapters_def str_def)

subsection \<open>Evaluation\<close>

lemma str_replace_absent: "\<not> sublist old s \<Longrightarrow> str_replace old new s = s"
proof (induction old new s rule: str_replace.induct)
  case (1 old new)
  then show ?case by auto
next
  case (2 old new c cs)
  from "2.prems" have ne: "old \<noteq> []" by auto
  from "2.prems" have np: "\<not> prefix old (c # cs)" and ns: "\<not> sublist old cs"
    by (auto simp: sublist_Cons_right)
  from "2.IH"(3) [OF ne np ns] ne np show ?case by simp
qed

lemma re_sub_repeat_absent: "\<not> list_ex P s \<Longrightarrow> re_sub_repeat P k repl s = s"
  by (induction s) auto

text \<open>The characters of a text after a replacement.\<close>

lemma set_re_sub_repeat_Suc_0:
  "set (re_sub_repeat P (Suc 0) repl s) \<subseteq> {c \<in> set s. \<not> P c} \<union> set repl"
proof (induction P "Suc 0" repl s rule: re_sub_repeat.induct)
  case (1 P repl)
  then show ?case by simp
next
  case (2 P repl c cs)
  show ?case
  proof (cases "P c")
    case True
    with "2.hyps"(1) have "set (re_sub_repeat P (Suc 0) repl (dropWhile P (c # cs))) \<subseteq>
      {x \<in> set (dropWhile P (c # cs)). \<not> P x} \<union> set repl"
      by simp
    also have "\<dots> \<subseteq> {x \<in> set (c # cs). \<not> P x} \<union> set repl"
      by (auto dest: set_dropWhileD)
    finally show ?thesis using True by simp
  next
    case False
    with "2.hyps"(2) show ?thesis by auto
  qed
qed

lemma set_re_sub_endnotes: "set (re_sub_endnotes prev s) \<subseteq> set s"
proof (induction prev s rule: re_sub_endnotes.induct)
  case (1 prev)
  then show ?case by simp
next
  case (2 prev c cs)
  show ?case
  proof (cases "(case prev of None \<Rightarrow> False | Some p \<Rightarrow> endnote_lookbehind p) \<and> re_digit c")
    case True
    with "2.IH"(1) have "set (re_sub_endnotes (Some (last (takeWhile re_digit (c # cs))))
      (dropWhile re_digit (c # cs))) \<subseteq> set (dropWhile re_digit (c # cs))"
      by simp
    also have "\<dots> \<subseteq> set (c # cs)"
      by (auto dest: set_dropWhileD)
    finally show ?thesis using True by simp
  next
    case False
    with "2.IH"(2) show ?thesis by auto
  qed
qed

lemma set_str_replace: "set (str_replace old new s) \<subseteq> set s \<union> set new"
proof (induction old new s rule: str_replace.induct)
  case (1 old new)
  then show ?case by auto
next
  case (2 old new c cs)
  show ?case
  proof (cases "old = []")
    case True
    with "2.IH"(1) show ?thesis by auto
  next
    case False
    show ?thesis
    proof (cases "prefix old (c # cs)")
      case True
      with False "2.IH"(2) have "set (str_replace old new (drop (length old) (c # cs))) \<subseteq>
        set (drop (length old) (c # cs)) \<union> set new"
        by simp
      also have "\<dots> \<subseteq> set (c # cs) \<union> set new"
        by (auto dest: in_set_dropD)
      finally show ?thesis using True False by auto
    next
      case no: False
      with False "2.IH"(3) show ?thesis by auto
    qed
  qed
qed

text \<open>
  A replacement without a backslash is a template of literals: \<^verbatim>\<open>re.sub\<close> puts the
  replacement itself in place of every match.
\<close>

lemma parse_template_literal: "0x5C \<notin> set b \<Longrightarrow> parse_template b = Inr (map Literal b)"
  by (induction b) (simp_all add: add_pieces_def)

lemma expand_template_literal: "expand_template (map Literal b) m = b"
  by (induction b) (simp_all add: expand_template_def)

lemma re_sub_repeat_template_literal:
  "re_sub_repeat_template P k (map Literal b) s = re_sub_repeat P k b s"
  by (induction P k b s rule: re_sub_repeat.induct) (simp_all add: expand_template_literal)

lemma re_sub_newlines_literal:
  "0x5C \<notin> set b \<Longrightarrow> re_sub_newlines k b s = Inr (re_sub_repeat is_newline k b s)"
  by (simp add: re_sub_newlines_def parse_template_literal re_sub_repeat_template_literal)

lemma re_sub_newlines_Nil:
  "re_sub_newlines k b [] = (case parse_template b of Inl e \<Rightarrow> Inl e | Inr t \<Rightarrow> Inr [])"
  by (simp add: re_sub_newlines_def split: sum.splits)

lemma re_sub_repeat_template_absent: "\<not> list_ex P s \<Longrightarrow> re_sub_repeat_template P k t s = s"
  by (induction s) auto

text \<open>The character classes on small code points, and whitespace against word characters.\<close>

lemma isalnum_ascii:
  "c < 0x80 \<Longrightarrow>
   isalnum c = (0x30 \<le> c \<and> c \<le> 0x39 \<or> 0x41 \<le> c \<and> c \<le> 0x5A \<or> 0x61 \<le> c \<and> c \<le> 0x7A)"
  by (auto simp: isalnum_def alnum_ranges_0_def)

lemma isdecimal_below_0x660: "c < 0x660 \<Longrightarrow> isdecimal c = (0x30 \<le> c \<and> c \<le> 0x39)"
  by (simp add: isdecimal_def decimal_ranges_def)

lemma isspace_not_alnum: "isspace c \<Longrightarrow> \<not> isalnum c"
proof -
  have a: "\<not> isalnum c" if "c \<le> 0x20" for c
    using that by (simp add: isalnum_def alnum_ranges_0_def)
  have b: "\<not> isalnum 0x85" "\<not> isalnum 0xA0"
    by (simp_all add: isalnum_def alnum_ranges_0_def)
  have c: "\<not> isalnum 0x1680"
    by (simp add: isalnum_def alnum_ranges_5_def)
  have d: "\<not> isalnum c" if "0x2000 \<le> c" "c \<le> 0x205F" for c
    using that by (simp add: isalnum_def alnum_ranges_6_def)
  have e: "\<not> isalnum 0x3000"
    by (simp add: isalnum_def alnum_ranges_7_def)
  assume "isspace c"
  then consider "c \<le> 0x20" | "c = 0x85" | "c = 0xA0" | "c = 0x1680"
    | "0x2000 \<le> c \<and> c \<le> 0x205F" | "c = 0x3000"
    by (auto simp: isspace_def)
  then show ?thesis using a b c d e by cases auto
qed

lemma re_word_not_space: "re_word c \<Longrightarrow> \<not> re_space c"
  using isspace_not_alnum [of c]
  by (auto simp: re_word_def re_space_def isspace_def)

text \<open>Facts for the evaluation of the definitions on ASCII texts.\<close>

lemmas eval_defs = str_def blacklist_def title_levels_def decompose_all_def soup_find_def
  get_text_def prep_text_def prep_text_replacements_def str_strip_def isspace_def
  squash_whitespace_def re_space_def is_newline_def str_startswith_def

lemmas chapter_defs = chapter_of_def get_chapters_def Let_def filtered_def
  collapse_newlines_def re_sub_newlines_literal sanitize_title_def re_sub_each_def
  re_word_def isalnum_ascii
  strip_endnotes_def re_digit_def isdecimal_below_0x660
  remove_cjk_spaces_def re_search_def is_cjk_def sentence_end_def endnote_lookbehind_def
  example_config_def

text \<open>Facts for the evaluation of a replacement template.\<close>

lemmas template_defs = re_sub_newlines_def add_pieces_def expand_template_def is_asciidigit_def
  is_octdigit_def is_asciiletter_def template_escapes_def octal_value_def

subsection \<open>A document rooted at \<^verbatim>\<open>html\<close>\<close>

lemma prep_text_Nil: "prep_text [] = []"
  by (simp add: prep_text_def prep_text_replacements_def str_strip_def str_def)

lemma sanitize_title_Nil: "sanitize_title [] b = []"
  by (simp add: sanitize_title_def str_strip_def str_def re_sub_each_def re_space_def isspace_def)

text \<open>A text of whitespace only is prepared to the empty text.\<close>

lemma str_strip_blank: "list_all isspace s \<Longrightarrow> str_strip s = []"
  by (auto simp: str_strip_def list_all_iff dest: set_dropWhileD)

lemma str_replace_blank:
  assumes "list_all isspace s" and "(\<exists>c \<in> set old. \<not> isspace c) \<or> list_all isspace new"
  shows "list_all isspace (str_replace old new s)"
proof (cases "\<exists>c \<in> set old. \<not> isspace c")
  case True
  with assms(1) have "\<not> sublist old s"
    by (auto simp: list_all_iff dest: set_mono_sublist)
  with assms(1) show ?thesis by (simp add: str_replace_absent)
next
  case False
  with assms(2) have "list_all isspace new" by simp
  with assms(1) set_str_replace [of old new s] show ?thesis
    by (auto simp: list_all_iff)
qed

lemma prep_text_blank:
  assumes "list_all isspace s"
  shows "prep_text s = []"
proof -
  have table: "\<forall>(old, new) \<in> set prep_text_replacements.
      (\<exists>c \<in> set old. \<not> isspace c) \<or> list_all isspace new"
    by (simp add: prep_text_replacements_def str_def isspace_def)
  have "list_all isspace (foldl (\<lambda>t (old, new). str_replace old new t) t rs)"
    if "list_all isspace t"
      and "\<forall>(old, new) \<in> set rs. (\<exists>c \<in> set old. \<not> isspace c) \<or> list_all isspace new"
    for t rs
    using that
  proof (induction rs arbitrary: t)
    case Nil
    then show ?case by simp
  next
    case (Cons r rs)
    obtain old new where r: "r = (old, new)" by (cases r)
    with Cons.prems have "list_all isspace (str_replace old new t)"
      by (intro str_replace_blank) simp_all
    with Cons.IH [of "str_replace old new t"] Cons.prems(2) r show ?case by simp
  qed
  from this [OF assms table] show ?thesis
    by (simp add: prep_text_def str_strip_blank)
qed

text \<open>With no title and no prepared text the pair is empty, if the break string is accepted.\<close>

lemma chapter_of_no_text:
  assumes "find_title title_levels (filtered soup) = []"
    and "prep_text (get_text (filtered soup)) = []"
    and "newline_mode config = str ''single'' \<or> newline_mode config = str ''double''"
  shows "chapter_of config b soup =
    (case parse_template b of Inl e \<Rightarrow> Inl e | Inr t \<Rightarrow> Inr ([], []))"
proof -
  have "str_strip [] = ([] :: ustr)" by (simp add: str_strip_def)
  with assms(3) have "collapse_newlines (newline_mode config) b [] =
    (case parse_template b of Inl e \<Rightarrow> Inl e | Inr t \<Rightarrow> Inr [])"
    by (auto simp: collapse_newlines_def re_sub_newlines_Nil)
  then show ?thesis
    unfolding chapter_of_def filtered_def [symmetric] Let_def assms(1,2)
    by (simp add: squash_whitespace_def strip_endnotes_def remove_cjk_spaces_def
        re_split.simps sanitize_title_Nil split: sum.splits)
qed

text \<open>What the two loops leave of a tree rooted at \<^verbatim>\<open>html\<close>.\<close>

lemma filtered_rooted:
  assumes "list_all html_or_blank soup"
  shows "filtered soup = filter (\<lambda>n. \<not> name_in [str ''html''] n) soup"
proof -
  have html: "name_in blacklist n = name_in [str ''html''] n" if "html_or_blank n" for n
    using that by (cases n) (auto simp: blacklist_def)
  have keep: "decompose_in m n = n \<and> \<not> has_attr (str ''a'') (str ''href'') n"
    if "html_or_blank n" "\<not> name_in [str ''html''] n" for n m
    using that by (cases n) auto
  have "decompose_all (name_in blacklist) soup = filter (\<lambda>n. \<not> name_in [str ''html''] n) soup"
    using assms unfolding decompose_all_def
    by (induction soup) (auto simp: html keep)
  moreover have "decompose_all (has_attr (str ''a'') (str ''href'')) (filter (\<lambda>n. \<not> name_in [str ''html''] n) soup) =
    filter (\<lambda>n. \<not> name_in [str ''html''] n) soup"
    using assms unfolding decompose_all_def
    by (induction soup) (auto simp: keep)
  ultimately show ?thesis by (simp add: filtered_def)
qed

lemma filtered_rooted_blank:
  assumes "list_all html_or_blank soup"
  shows "list_all blank_or_other (filtered soup)"
proof -
  have "blank_or_other n" if "html_or_blank n" "\<not> name_in [str ''html''] n" for n
    using that by (cases n) auto
  with assms show ?thesis
    by (auto simp: filtered_rooted list_all_iff)
qed

lemma get_text_filtered_rooted:
  assumes "list_all html_or_blank soup"
  shows "get_text (filtered soup) = get_text (filter is_navigable_string soup)"
proof -
  have "concat (map node_text (filter (\<lambda>n. \<not> name_in [str ''html''] n) soup)) =
    concat (map node_text (filter is_navigable_string soup))"
    using assms
  proof (induction soup)
    case Nil
    then show ?case by simp
  next
    case (Cons n soup)
    then show ?case by (cases n) auto
  qed
  then show ?thesis by (simp add: filtered_rooted [OF assms] get_text_def)
qed

lemma soup_find_blank:
  assumes "list_all blank_or_other soup"
  shows "soup_find level soup = None"
proof -
  have "blank_or_other n \<Longrightarrow> find_in level n = None" for n
    by (cases n) auto
  with assms have "map (find_in level) soup = replicate (length soup) None"
    by (auto simp: list_all_iff map_replicate_const [symmetric] intro!: map_cong)
  moreover have "first_some (replicate k None) = (None :: node option)" for k
    by (induction k) auto
  ultimately show ?thesis by (simp add: soup_find_def)
qed

lemma get_text_blank:
  assumes "list_all blank_or_other soup"
  shows "list_all isspace (get_text soup)"
proof -
  have "blank_or_other n \<Longrightarrow> list_all isspace (node_text n)" for n
    by (cases n) auto
  with assms show ?thesis
    by (auto simp: get_text_def list_all_iff)
qed

lemma find_title_blank:
  assumes "list_all blank_or_other soup"
  shows "find_title levels soup = []"
  by (induction levels) (simp_all add: soup_find_blank [OF assms])

text \<open>
  C2, as the code has it. The excluded tags contain \<^verbatim>\<open>html\<close>, and the first loop takes
  every match out with its subtree. Of a document whose tree is rooted at an \<^verbatim>\<open>html\<close>
  element the filtered tree keeps no tag: none of \<^verbatim>\<open>title\<close>, \<^verbatim>\<open>h1\<close>, \<^verbatim>\<open>h2\<close>, \<^verbatim>\<open>h3\<close> is
  found and the title probe is empty. The extracted text is what the strings beside the
  \<^verbatim>\<open>html\<close> element hold, which is whitespace and need not be empty; the prepared text is
  empty. A break marker without a backslash is accepted by \<^verbatim>\<open>re.sub\<close>; under either
  newline mode and with a break marker that \<^verbatim>\<open>re.sub\<close> accepts, the pair that
  \<^verbatim>\<open>get_chapters\<close> returns for that document item, wherever it stands among the items,
  has the empty title and the empty text.
\<close>

theorem html_rooted_document_is_emptied:
  assumes "rooted_at_html soup"
  shows "list_all blank_or_other (filtered soup) \<and>
    (\<forall>level \<in> set title_levels. soup_find level (filtered soup) = None) \<and>
    find_title title_levels (filtered soup) = [] \<and>
    get_text (filtered soup) = get_text (filter is_navigable_string soup) \<and>
    list_all isspace (get_text (filtered soup)) \<and>
    prep_text (get_text (filtered soup)) = [] \<and>
    (0x5C \<notin> set b \<longrightarrow> (\<exists>t. parse_template b = Inr t)) \<and>
    (\<forall>items i t.
       (newline_mode config = str ''single'' \<or> newline_mode config = str ''double'') \<longrightarrow>
       parse_template b = Inr t \<longrightarrow> i < length items \<longrightarrow> items ! i = soup \<longrightarrow>
       (\<exists>chs. get_chapters config b items = Inr chs \<and> length chs = length items \<and>
          chs ! i = ([], [])))"
proof -
  from assms have root: "list_all html_or_blank soup"
    by (simp add: rooted_at_html_def)
  note blank = filtered_rooted_blank [OF root]
  note title = find_title_blank [OF blank, of title_levels]
  note text_blank = get_text_blank [OF blank]
  note prep = prep_text_blank [OF text_blank]
  have "\<exists>chs. get_chapters config b items = Inr chs \<and> length chs = length items \<and> chs ! i = ([], [])"
    if mode: "newline_mode config = str ''single'' \<or> newline_mode config = str ''double''"
      and t: "parse_template b = Inr t"
      and i: "i < length items" "items ! i = soup" for items i t
  proof -
    from chapter_of_no_text [OF title prep mode, of b] t
    have chap: "chapter_of config b soup = Inr ([], [])" by simp
    from get_chapters_loop_valid [OF mode t] obtain chs
      where chs: "get_chapters_loop config b items [] = Inr chs" by blast
    from get_chapters_loop_Inr [OF chs] i chap
    have "length chs = length items \<and> chs ! i = ([], [])" by auto
    with chs show ?thesis by (simp add: get_chapters_def)
  qed
  moreover have "0x5C \<notin> set b \<longrightarrow> (\<exists>t. parse_template b = Inr t)"
    by (simp add: parse_template_literal)
  moreover have "\<forall>level \<in> set title_levels. soup_find level (filtered soup) = None"
    by (simp add: soup_find_blank [OF blank])
  ultimately show ?thesis
    using blank title text_blank prep get_text_filtered_rooted [OF root] by blast
qed

text \<open>
  The theorem at a document with a doctype, a head with a title, a body, and a newline
  behind the \<^verbatim>\<open>html\<close> element, with the break marker \<^verbatim>\<open> @BRK#\<close>.
\<close>

theorem html_rooted_document_is_emptied_witness:
  "rooted_at_html rooted_example \<and>
   find_title title_levels (filtered rooted_example) = [] \<and>
   prep_text (get_text (filtered rooted_example)) = [] \<and>
   0x5C \<notin> set (str '' @BRK#'') \<and>
   get_chapters example_config (str '' @BRK#'') [rooted_example] = Inr [([], [])]"
proof -
  have root: "rooted_at_html rooted_example"
    by (simp add: rooted_at_html_def rooted_example_def str_def isspace_def)
  have mode: "newline_mode example_config = str ''single'' \<or> newline_mode example_config = str ''double''"
    by (simp add: example_config_def)
  have marker: "0x5C \<notin> set (str '' @BRK#'')"
    by (simp add: str_def)
  note emptied = html_rooted_document_is_emptied [OF root, of "str '' @BRK#''" example_config]
  from emptied marker obtain t where t: "parse_template (str '' @BRK#'') = Inr t"
    by blast
  from emptied mode t obtain chs
    where "get_chapters example_config (str '' @BRK#'') [rooted_example] = Inr chs"
    and "length chs = 1" and "chs ! 0 = ([], [])"
    by (metis length_Cons list.size(3) nth_Cons_0 One_nat_def zero_less_one)
  moreover from this have "chs = [([], [])]"
    by (cases chs) auto
  ultimately have run: "get_chapters example_config (str '' @BRK#'') [rooted_example] = Inr [([], [])]"
    by simp
  from emptied have "find_title title_levels (filtered rooted_example) = []"
    and "prep_text (get_text (filtered rooted_example)) = []"
    by blast+
  with root marker run show ?thesis by (intro conjI)
qed

text \<open>
  C2 as it is written fails in two places. The text extracted from the filtered tree of
  that document is the newline behind the \<^verbatim>\<open>html\<close> element, not the empty string. And
  with the break marker of a backslash and the digit 1, which \<^verbatim>\<open>re.sub\<close> refuses as a
  reference to a group that the pattern does not have, no pair is returned.
\<close>

theorem html_rooted_document_counterexample:
  "rooted_at_html rooted_example \<and>
   get_text (filtered rooted_example) = [0x0A] \<and>
   get_text (filtered rooted_example) \<noteq> [] \<and>
   get_chapters example_config [0x5C, 0x31] [rooted_example] = Inl TemplateError"
proof -
  have root: "rooted_at_html rooted_example"
    by (simp add: rooted_at_html_def rooted_example_def str_def isspace_def)
  have raw: "get_text (filtered rooted_example) = [0x0A]"
    by (simp add: filtered_def rooted_example_def eval_defs)
  have "parse_template [0x5C, 0x31] = Inl TemplateError"
    by (simp add: template_defs)
  then have "get_chapters example_config [0x5C, 0x31] [rooted_example] = Inl TemplateError"
    by (simp add: get_chapters_def chapter_of_def Let_def collapse_newlines_def
        re_sub_newlines_def example_config_def)
  with root raw show ?thesis by simp
qed

subsection \<open>The example document\<close>

text \<open>
  C1, on the code. The tree that the lxml tree builder makes of the example document has
  the heading and the paragraph in \<^verbatim>\<open>body\<close> in \<^verbatim>\<open>html\<close>. The first loop takes the
  \<^verbatim>\<open>html\<close> element out with all that is in it, so nothing is left for the title probe
  and the text: with mode \<^verbatim>\<open>single\<close>, end-note removal off, language \<^verbatim>\<open>en\<close> and the break
  marker \<^verbatim>\<open> @BRK#\<close>, \<^verbatim>\<open>get_chapters\<close> returns the one pair of the empty title and the
  empty text, where the title \<^verbatim>\<open>Chapter_One\<close> and the text \<^verbatim>\<open>He said, "Hello, there."\<close>
  are expected.
\<close>

theorem example_lxml_returns_empty_pair:
  "filtered example_lxml = [] \<and>
   find_title title_levels (filtered example_lxml) = [] \<and>
   get_text (filtered example_lxml) = [] \<and>
   get_chapters example_config (str '' @BRK#'') [example_lxml] = Inr [([], [])] \<and>
   get_chapters example_config (str '' @BRK#'') [example_lxml] \<noteq>
     Inr [(str ''Chapter_One'', str ''He said, '' @ [0x22] @ str ''Hello, there.'' @ [0x22])]"
proof -
  have gone: "filtered example_lxml = []"
    by (simp add: filtered_def example_lxml_def eval_defs)
  have marker: "parse_template (str '' @BRK#'') = Inr (map Literal (str '' @BRK#''))"
    by (rule parse_template_literal) (simp add: str_def)
  have "chapter_of example_config (str '' @BRK#'') example_lxml =
    (case parse_template (str '' @BRK#'') of Inl e \<Rightarrow> Inl e | Inr t \<Rightarrow> Inr ([], []))"
    by (rule chapter_of_no_text)
      (simp_all add: gone example_config_def get_text_def title_levels_def soup_find_def
        prep_text_Nil)
  then have "get_chapters example_config (str '' @BRK#'') [example_lxml] = Inr [([], [])]"
    by (simp add: get_chapters_def marker)
  with gone show ?thesis
    by (simp add: get_text_def title_levels_def soup_find_def str_def)
qed

subsection \<open>The title\<close>

lemma find_append_eq:
  "List.find P (xs @ ys) = (case List.find P xs of None \<Rightarrow> List.find P ys | Some x \<Rightarrow> Some x)"
  by (induction xs) auto

lemma first_some_find_in:
  assumes "\<And>c. c \<in> set cs \<Longrightarrow> find_in nm c = List.find (name_in [nm]) (descendants_of c)"
  shows "first_some (map (find_in nm) cs) = List.find (name_in [nm]) (concat (map descendants_of cs))"
  using assms
proof (induction cs)
  case Nil
  then show ?case by simp
next
  case (Cons c cs)
  then show ?case
    by (cases "find_in nm c") (simp_all add: find_append_eq)
qed

lemma find_in_descendants: "find_in nm n = List.find (name_in [nm]) (descendants_of n)"
proof (induction nm n rule: find_in.induct)
  case (1 nm n a cs)
  show ?case
  proof (cases "n = nm")
    case True
    then show ?thesis by simp
  next
    case False
    with "1.IH" have "first_some (map (find_in nm) cs) =
      List.find (name_in [nm]) (concat (map descendants_of cs))"
      by (intro first_some_find_in) simp
    with False show ?thesis by simp
  qed
qed simp_all

lemma soup_find_first_tag: "soup_find nm soup = first_tag nm soup"
  unfolding soup_find_def first_tag_def descendants_def
  by (intro first_some_find_in) (rule find_in_descendants)

lemma find_title_first_tag:
  assumes "i < length levels" and "\<forall>j<i. first_tag (levels ! j) soup = None"
    and "first_tag (levels ! i) soup = Some t"
  shows "find_title levels soup = node_text t"
  using assms
proof (induction levels arbitrary: i)
  case Nil
  then show ?case by simp
next
  case (Cons level levels)
  show ?case
  proof (cases i)
    case 0
    with Cons.prems show ?thesis by (simp add: soup_find_first_tag)
  next
    case (Suc k)
    with Cons.prems have "first_tag level soup = None" by auto
    moreover from Suc Cons.prems have "find_title levels soup = node_text t"
      by (intro Cons.IH [of k]) auto
    ultimately show ?thesis by (simp add: soup_find_first_tag)
  qed
qed

lemma find_title_none:
  assumes "\<forall>level \<in> set levels. first_tag level soup = None"
  shows "find_title levels soup = []"
  using assms by (induction levels) (simp_all add: soup_find_first_tag)

lemma chapter_of_title:
  assumes "chapter_of config b soup = Inr (title, text)"
  shows "title = sanitize_title
    (if find_title title_levels (filtered soup) = [] then take 60 text
     else find_title title_levels (filtered soup)) b"
  using assms
  by (auto simp: chapter_of_def filtered_def Let_def split: sum.splits)

text \<open>
  C5. The title probe goes through \<^verbatim>\<open>title\<close>, \<^verbatim>\<open>h1\<close>, \<^verbatim>\<open>h2\<close>, \<^verbatim>\<open>h3\<close> in this order
  and yields the text of the first tag, in document order, of the first of these names
  that the filtered tree has; the title of the pair is its sanitized form when that text
  is not empty. Where the filtered tree has none of the four, the title of the pair is the
  sanitized form of the first 60 characters of the text of the pair. (A tag that is found
  with an empty text leads to the same fallback.)
\<close>

theorem title_resolution:
  assumes "get_chapters config b items = Inr chs" and "k < length items"
    and "chs ! k = (title, text)"
  shows "(\<forall>i t. i < length title_levels \<and>
            (\<forall>j<i. first_tag (title_levels ! j) (filtered (items ! k)) = None) \<and>
            first_tag (title_levels ! i) (filtered (items ! k)) = Some t \<longrightarrow>
          find_title title_levels (filtered (items ! k)) = node_text t \<and>
          (node_text t \<noteq> [] \<longrightarrow> title = sanitize_title (node_text t) b)) \<and>
         ((\<forall>level \<in> set title_levels. first_tag level (filtered (items ! k)) = None) \<longrightarrow>
          title = sanitize_title (take 60 text) b)"
proof -
  from assms(1) have "get_chapters_loop config b items [] = Inr chs"
    by (simp add: get_chapters_def)
  from get_chapters_loop_Inr [OF this] assms(2,3)
  have "chapter_of config b (items ! k) = Inr (title, text)" by auto
  note title = chapter_of_title [OF this]
  show ?thesis
  proof (intro conjI allI impI)
    fix i t
    assume *: "i < length title_levels \<and>
            (\<forall>j<i. first_tag (title_levels ! j) (filtered (items ! k)) = None) \<and>
            first_tag (title_levels ! i) (filtered (items ! k)) = Some t"
    then show found: "find_title title_levels (filtered (items ! k)) = node_text t"
      by (intro find_title_first_tag [of i]) auto
    assume "node_text t \<noteq> []"
    with title found show "title = sanitize_title (node_text t) b" by simp
  next
    assume "\<forall>level \<in> set title_levels. first_tag level (filtered (items ! k)) = None"
    then have "find_title title_levels (filtered (items ! k)) = []"
      by (rule find_title_none)
    with title show "title = sanitize_title (take 60 text) b" by simp
  qed
qed

text \<open>
  The theorem at two documents: one whose first heading is an \<^verbatim>\<open>h2\<close>, one with no
  heading.
\<close>

lemma title_examples:
  "get_chapters example_config (str '' @BRK#'') [heading_example, no_heading_example] =
     Inr [(str ''Part_Two'', str ''Part TwoText here.''),
          (str ''No_heading_here'', str ''No heading, here!'')]"
  by (simp add: heading_example_def no_heading_example_def chapter_defs eval_defs)

theorem title_resolution_witness:
  "get_chapters example_config (str '' @BRK#'') [heading_example, no_heading_example] =
     Inr [(str ''Part_Two'', str ''Part TwoText here.''),
          (str ''No_heading_here'', str ''No heading, here!'')] \<and>
   first_tag (str ''title'') (filtered heading_example) = None \<and>
   first_tag (str ''h1'') (filtered heading_example) = None \<and>
   first_tag (str ''h2'') (filtered heading_example) =
     Some (Tag (str ''h2'') [] [NavigableString (str ''Part Two'')]) \<and>
   find_title title_levels (filtered heading_example) = str ''Part Two'' \<and>
   str ''Part_Two'' = sanitize_title (str ''Part Two'') (str '' @BRK#'') \<and>
   first_tag (str ''title'') (filtered no_heading_example) = None \<and>
   first_tag (str ''h1'') (filtered no_heading_example) = None \<and>
   first_tag (str ''h2'') (filtered no_heading_example) = None \<and>
   first_tag (str ''h3'') (filtered no_heading_example) = None \<and>
   str ''No_heading_here'' = sanitize_title (take 60 (str ''No heading, here!'')) (str '' @BRK#'')"
proof -
  let ?h2 = "Tag (str ''h2'') [] [NavigableString (str ''Part Two'')]"
  note run = title_examples
  have a: "first_tag (str ''title'') (filtered heading_example) = None"
    "first_tag (str ''h1'') (filtered heading_example) = None"
    "first_tag (str ''h2'') (filtered heading_example) = Some ?h2"
    by (simp_all add: first_tag_def descendants_def heading_example_def filtered_def eval_defs)
  have b: "first_tag (str ''title'') (filtered no_heading_example) = None"
    "first_tag (str ''h1'') (filtered no_heading_example) = None"
    "first_tag (str ''h2'') (filtered no_heading_example) = None"
    "first_tag (str ''h3'') (filtered no_heading_example) = None"
    by (simp_all add: first_tag_def descendants_def no_heading_example_def filtered_def eval_defs)
  have levels: "title_levels ! 0 = str ''title''" "title_levels ! 1 = str ''h1''"
    "title_levels ! 2 = str ''h2''" "(2::nat) < length title_levels"
    by (simp_all add: title_levels_def)
  have prior: "\<forall>j<2. first_tag (title_levels ! j) (filtered heading_example) = None"
    using a(1,2) levels(1,2) by (auto simp: less_Suc_eq numeral_2_eq_2)
  have text_a: "node_text ?h2 = str ''Part Two''" "str ''Part Two'' \<noteq> []"
    by (simp_all add: str_def)
  have k0: "0 < length [heading_example, no_heading_example]"
    and k1: "1 < length [heading_example, no_heading_example]"
    by simp_all
  have p0: "[(str ''Part_Two'', str ''Part TwoText here.''),
      (str ''No_heading_here'', str ''No heading, here!'')] ! 0 =
    (str ''Part_Two'', str ''Part TwoText here.'')"
    and p1: "[(str ''Part_Two'', str ''Part TwoText here.''),
      (str ''No_heading_here'', str ''No heading, here!'')] ! 1 =
    (str ''No_heading_here'', str ''No heading, here!'')"
    by simp_all
  have "find_title title_levels (filtered heading_example) = node_text ?h2 \<and>
    (node_text ?h2 \<noteq> [] \<longrightarrow>
      str ''Part_Two'' = sanitize_title (node_text ?h2) (str '' @BRK#''))"
    using title_resolution [OF run k0 p0, THEN conjunct1, rule_format, of 2 ?h2]
      levels prior a(3) by simp
  with text_a
  have c: "find_title title_levels (filtered heading_example) = str ''Part Two''"
    "str ''Part_Two'' = sanitize_title (str ''Part Two'') (str '' @BRK#'')"
    by simp_all
  have none: "\<forall>level \<in> set title_levels. first_tag level (filtered no_heading_example) = None"
    using b by (simp add: title_levels_def)
  have d: "str ''No_heading_here'' =
    sanitize_title (take 60 (str ''No heading, here!'')) (str '' @BRK#'')"
    using title_resolution [OF run k1 p1, THEN conjunct2] none by simp
  from run a c b d show ?thesis by (intro conjI)
qed

subsection \<open>No newline in the chapter text\<close>

lemma re_space_newline: "re_space 0x0A"
  by (simp add: re_space_def isspace_def)

lemma replace_sentences_no_newline:
  "0x0A \<notin> set cleaned \<Longrightarrow> 0x0A \<notin> set (replace_sentences sentences cleaned)"
proof (induction sentences arbitrary: cleaned)
  case Nil
  then show ?case by simp
next
  case (Cons sentence sentences)
  have "0x0A \<notin> set (re_sub_repeat re_space 1 [] sentence)"
    using set_re_sub_repeat_Suc_0 [of re_space "[]" sentence] re_space_newline by auto
  with Cons.prems set_str_replace [of sentence "re_sub_repeat re_space 1 [] sentence" cleaned]
  have "0x0A \<notin> set (str_replace sentence (re_sub_repeat re_space 1 [] sentence) cleaned)"
    by auto
  with Cons.prems Cons.IH show ?case by simp
qed

lemma squash_whitespace_no_newline: "0x0A \<notin> set (squash_whitespace s)"
  using set_re_sub_repeat_Suc_0 [of re_space "str '' ''" s] re_space_newline
  by (auto simp: squash_whitespace_def str_def)

lemma chapter_of_no_newline:
  assumes "chapter_of config b soup = Inr (title, text)"
  shows "0x0A \<notin> set text"
proof -
  from assms obtain cleaned1 where
    final: "text = (let cleaned2 = squash_whitespace cleaned1;
              cleaned3 = (if remove_endnotes config then strip_endnotes cleaned2 else cleaned2)
            in if str_startswith (language config) (str ''zh'')
               then remove_cjk_spaces sentence_end cleaned3 else cleaned3)"
    by (auto simp: chapter_of_def Let_def split: sum.splits)
  have 2: "0x0A \<notin> set (squash_whitespace cleaned1)"
    by (rule squash_whitespace_no_newline)
  then have 3: "0x0A \<notin> set (if remove_endnotes config
      then strip_endnotes (squash_whitespace cleaned1) else squash_whitespace cleaned1)"
    using set_re_sub_endnotes [of None "squash_whitespace cleaned1"]
    by (auto simp: strip_endnotes_def)
  then show ?thesis
    unfolding final Let_def remove_cjk_spaces_def
    by (auto dest: replace_sentences_no_newline)
qed

text \<open>
  C7. Whatever the configuration, the break marker and the document items are: when
  \<^verbatim>\<open>get_chapters\<close> returns, it returns one pair for each item, and no text of a pair has a
  newline character, also where the break marker puts one in (the squash of the
  whitespace runs comes after it). Under either newline mode it returns whenever \<^verbatim>\<open>re.sub\<close>
  accepts the break marker as its replacement, as it does every marker without a
  backslash; with a marker that \<^verbatim>\<open>re.sub\<close> refuses and at least one item it fails and
  emits no text.
\<close>

theorem no_newline_in_chapter_text:
  "(\<forall>chs. get_chapters config b items = Inr chs \<longrightarrow>
      length chs = length items \<and> (\<forall>ch \<in> set chs. 0x0A \<notin> set (snd ch))) \<and>
   (\<forall>t. (newline_mode config = str ''single'' \<or> newline_mode config = str ''double'') \<longrightarrow>
      parse_template b = Inr t \<longrightarrow> (\<exists>chs. get_chapters config b items = Inr chs)) \<and>
   (0x5C \<notin> set b \<longrightarrow> (\<exists>t. parse_template b = Inr t)) \<and>
   (\<forall>e. (newline_mode config = str ''single'' \<or> newline_mode config = str ''double'') \<longrightarrow>
      parse_template b = Inl e \<longrightarrow> items \<noteq> [] \<longrightarrow> get_chapters config b items = Inl e)"
proof -
  have texts: "length chs = length items \<and> (\<forall>ch \<in> set chs. 0x0A \<notin> set (snd ch))"
    if "get_chapters config b items = Inr chs" for chs
  proof -
    from that have chs: "get_chapters_loop config b items [] = Inr chs"
      by (simp add: get_chapters_def)
    from get_chapters_loop_Inr [OF chs]
    have len: "length chs = length items"
      and each: "\<forall>i<length items. chapter_of config b (items ! i) = Inr (chs ! i)"
      by auto
    have "0x0A \<notin> set (snd ch)" if "ch \<in> set chs" for ch
    proof -
      from that len obtain i where "i < length items" "ch = chs ! i"
        by (auto simp: in_set_conv_nth)
      with each have "chapter_of config b (items ! i) = Inr (fst ch, snd ch)" by simp
      then show ?thesis by (rule chapter_of_no_newline)
    qed
    with len show ?thesis by simp
  qed
  have returns: "\<exists>chs. get_chapters config b items = Inr chs"
    if "newline_mode config = str ''single'' \<or> newline_mode config = str ''double''"
      and "parse_template b = Inr t" for t
    using get_chapters_loop_valid [OF that] by (simp add: get_chapters_def)
  have fails: "get_chapters config b items = Inl e"
    if mode: "newline_mode config = str ''single'' \<or> newline_mode config = str ''double''"
      and e: "parse_template b = Inl e" and items: "items \<noteq> []" for e
  proof -
    from items obtain item rest where "items = item # rest" by (cases items) auto
    with chapter_of_rejected [OF mode e, of item] show ?thesis
      by (simp add: get_chapters_def)
  qed
  from texts returns fails show ?thesis
    by (simp add: parse_template_literal)
qed

text \<open>
  The theorem at a document whose text has two newlines, with the break marker
  \<^verbatim>\<open> @BRK#\<close>, and with the break marker of a backslash and the letter n, for which
  \<^verbatim>\<open>re.sub\<close> inserts a newline.
\<close>

lemma newline_example_run:
  "get_chapters example_config (str '' @BRK#'') [newline_example] =
     Inr [(str ''a_b'', str ''a @BRK# @BRK#b'')]"
  by (simp add: newline_example_def chapter_defs eval_defs)

lemma newline_example_escape:
  "get_chapters example_config [0x5C, 0x6E] [newline_example] = Inr [(str ''a_b'', str ''a b'')]"
  by (simp add: newline_example_def chapter_defs eval_defs template_defs)

theorem no_newline_in_chapter_text_witness:
  "newline_mode example_config = str ''single'' \<and>
   0x5C \<notin> set (str '' @BRK#'') \<and>
   get_chapters example_config (str '' @BRK#'') [newline_example] =
     Inr [(str ''a_b'', str ''a @BRK# @BRK#b'')] \<and>
   0x0A \<notin> set (str ''a @BRK# @BRK#b'') \<and>
   parse_template [0x5C, 0x6E] = Inr [Literal 0x0A] \<and>
   get_chapters example_config [0x5C, 0x6E] [newline_example] = Inr [(str ''a_b'', str ''a b'')] \<and>
   0x0A \<notin> set (str ''a b'')"
proof -
  have mode: "newline_mode example_config = str ''single''"
    by (simp add: example_config_def)
  have marker: "0x5C \<notin> set (str '' @BRK#'')"
    by (simp add: str_def)
  have escape: "parse_template [0x5C, 0x6E] = Inr [Literal 0x0A]"
    by (simp add: template_defs)
  from no_newline_in_chapter_text [of example_config "str '' @BRK#''" "[newline_example]"]
  have 1: "0x0A \<notin> set (str ''a @BRK# @BRK#b'')"
    unfolding newline_example_run by simp
  from no_newline_in_chapter_text [of example_config "[0x5C, 0x6E]" "[newline_example]"]
  have 2: "0x0A \<notin> set (str ''a b'')"
    unfolding newline_example_escape by simp
  from mode marker escape 1 2 newline_example_run newline_example_escape
  show ?thesis by (intro conjI)
qed

subsection \<open>Runs of a character class\<close>

lemma takeWhile_before_end:
  assumes "u \<noteq> []" and "\<not> P (last u)"
  shows "takeWhile P (u @ x) = takeWhile P u" and "dropWhile P (u @ x) = dropWhile P u @ x"
proof -
  from assms have "last u \<in> set u" by simp
  with assms(2) show "takeWhile P (u @ x) = takeWhile P u"
    and "dropWhile P (u @ x) = dropWhile P u @ x"
    by (simp_all add: takeWhile_append1 dropWhile_append1)
qed

lemma dropWhile_keeps_end:
  assumes "u \<noteq> []" and "\<not> P (last u)"
  shows "dropWhile P u \<noteq> [] \<and> last (dropWhile P u) = last u"
  using assms by (induction u) (auto split: if_splits)

lemma re_sub_repeat_append:
  assumes "u = [] \<or> \<not> P (last u)"
  shows "re_sub_repeat P k repl (u @ x) = re_sub_repeat P k repl u @ re_sub_repeat P k repl x"
  using assms
proof (induction P k repl u rule: re_sub_repeat.induct)
  case (1 P k repl)
  then show ?case by simp
next
  case (2 P k repl c cs)
  from "2.prems" have fin: "\<not> P (last (c # cs))" by simp
  have tw: "takeWhile P (c # cs @ x) = takeWhile P (c # cs)"
    "dropWhile P (c # cs @ x) = dropWhile P (c # cs) @ x"
    using takeWhile_before_end [of "c # cs" P x] fin by simp_all
  show ?case
  proof (cases "P c \<and> k \<le> length (takeWhile P (c # cs))")
    case True
    from dropWhile_keeps_end [of "c # cs" P] fin
    have "dropWhile P (c # cs) = [] \<or> \<not> P (last (dropWhile P (c # cs)))"
      by simp
    from "2.IH"(1) [OF True this] True tw show ?thesis
      by (auto split: if_splits)
  next
    case False
    from "2.prems" have "cs = [] \<or> \<not> P (last cs)" by (auto split: if_splits)
    from "2.IH"(2) [OF False this] False tw show ?thesis
      by (auto split: if_splits)
  qed
qed

lemma takeWhile_run:
  assumes "list_all P w" and "v = [] \<or> \<not> P (hd v)"
  shows "takeWhile P (w @ v) = w" and "dropWhile P (w @ v) = v"
  using assms by (induction w) (auto simp: takeWhile_eq_Nil_iff dropWhile_eq_self_iff)

lemma re_sub_repeat_long_run:
  assumes "list_all P w" and "w \<noteq> []" and "k \<le> length w" and "v = [] \<or> \<not> P (hd v)"
  shows "re_sub_repeat P k repl (w @ v) = repl @ re_sub_repeat P k repl v"
proof -
  from assms(2) obtain c cs where w: "w = c # cs" by (cases w) auto
  with assms(1) have "P c" by simp
  moreover from takeWhile_run [OF assms(1,4)]
  have "takeWhile P (c # cs @ v) = w" "dropWhile P (c # cs @ v) = v" by (simp_all add: w)
  ultimately show ?thesis using assms(3) by (simp add: w)
qed

lemma re_sub_repeat_short_run:
  assumes "list_all P w" and "length w < k" and "v = [] \<or> \<not> P (hd v)"
  shows "re_sub_repeat P k repl (w @ v) = w @ re_sub_repeat P k repl v"
  using assms(1,2)
proof (induction w)
  case Nil
  then show ?case by simp
next
  case (Cons c cs)
  then have "list_all P (c # cs)" by simp
  from takeWhile_run(1) [OF this assms(3)] have "takeWhile P (c # cs @ v) = c # cs" by simp
  with Cons show ?case by simp
qed

lemma re_sub_repeat_run:
  assumes "u = [] \<or> \<not> P (last u)" and "v = [] \<or> \<not> P (hd v)"
    and "list_all P w" and "w \<noteq> []"
  shows "re_sub_repeat P k repl (u @ w @ v) =
    re_sub_repeat P k repl u @ (if k \<le> length w then repl else w) @ re_sub_repeat P k repl v"
proof -
  have "re_sub_repeat P k repl (u @ w @ v) =
    re_sub_repeat P k repl u @ re_sub_repeat P k repl (w @ v)"
    using assms(1) by (rule re_sub_repeat_append)
  moreover have "re_sub_repeat P k repl (w @ v) = repl @ re_sub_repeat P k repl v"
    if "k \<le> length w"
    using assms(3,4) that assms(2) by (rule re_sub_repeat_long_run)
  moreover have "re_sub_repeat P k repl (w @ v) = w @ re_sub_repeat P k repl v"
    if "\<not> k \<le> length w"
    using assms(3) _ assms(2) by (rule re_sub_repeat_short_run) (use that in simp)
  ultimately show ?thesis by simp
qed

subsection \<open>The newline modes\<close>

lemma literal_marker_no_backslash: "0x5C \<notin> set b \<Longrightarrow> literal_marker b"
  by (simp add: literal_marker_def parse_template_literal)

lemma re_sub_newlines_literal_marker:
  "literal_marker b \<Longrightarrow> re_sub_newlines k b s = Inr (re_sub_repeat is_newline k b s)"
  by (simp add: literal_marker_def re_sub_newlines_def re_sub_repeat_template_literal)

text \<open>
  C3, as the code has it. The break marker is the replacement of \<^verbatim>\<open>re.sub\<close>, which reads
  it as a template; let it be a marker that the template stands for itself, as every
  marker without a backslash is. Let a run of \<open>n\<close> newlines stand between \<open>u\<close> and \<open>v\<close>,
  where \<open>u\<close> does not end and \<open>v\<close> does not begin with a newline (the run is maximal), in
  the text that the step works on, which is the stripped input. Under \<^verbatim>\<open>single\<close> a run of
  one or more becomes the break marker, once. Under \<^verbatim>\<open>double\<close> a run of two or more
  becomes the break marker, once, and a single newline stays; a text without a newline
  is not changed in either mode. The squash that follows turns every maximal run of
  whitespace, so also a newline that was left, into one space.
\<close>

theorem newline_runs_collapsed:
  assumes "literal_marker b"
    and "u = [] \<or> \<not> is_newline (last u)" and "v = [] \<or> \<not> is_newline (hd v)"
    and "x = [] \<or> \<not> re_space (last x)" and "y = [] \<or> \<not> re_space (hd y)"
    and "list_all re_space ws" and "ws \<noteq> []"
  shows
    "(\<forall>c. 0x5C \<notin> set c \<longrightarrow> literal_marker c) \<and>
     collapse_newlines (str ''single'') b raw =
       Inr (re_sub_repeat is_newline 1 b (str_strip raw)) \<and>
     (1 \<le> n \<longrightarrow>
       re_sub_repeat is_newline 1 b (u @ replicate n 0x0A @ v) =
       re_sub_repeat is_newline 1 b u @ b @ re_sub_repeat is_newline 1 b v) \<and>
     collapse_newlines (str ''double'') b raw =
       Inr (re_sub_repeat is_newline 2 b (str_strip raw)) \<and>
     (2 \<le> n \<longrightarrow>
       re_sub_repeat is_newline 2 b (u @ replicate n 0x0A @ v) =
       re_sub_repeat is_newline 2 b u @ b @ re_sub_repeat is_newline 2 b v) \<and>
     re_sub_repeat is_newline 2 b (u @ [0x0A] @ v) =
       re_sub_repeat is_newline 2 b u @ [0x0A] @ re_sub_repeat is_newline 2 b v \<and>
     (\<not> list_ex is_newline s \<longrightarrow>
       re_sub_repeat is_newline 1 b s = s \<and> re_sub_repeat is_newline 2 b s = s) \<and>
     squash_whitespace (x @ ws @ y) = squash_whitespace x @ str '' '' @ squash_whitespace y"
proof -
  have nl: "list_all is_newline (replicate n 0x0A)"
    by (simp add: list_all_iff is_newline_def)
  have single: "re_sub_repeat is_newline 1 b (u @ replicate n 0x0A @ v) =
       re_sub_repeat is_newline 1 b u @ b @ re_sub_repeat is_newline 1 b v" if "1 \<le> n"
    using re_sub_repeat_run [OF assms(2,3) nl, of 1 b] that by auto
  have double: "re_sub_repeat is_newline 2 b (u @ replicate n 0x0A @ v) =
       re_sub_repeat is_newline 2 b u @ b @ re_sub_repeat is_newline 2 b v" if "2 \<le> n"
    using re_sub_repeat_run [OF assms(2,3) nl, of 2 b] that by auto
  have "list_all is_newline [0x0A]" "[0x0A] \<noteq> ([] :: ustr)"
    by (simp_all add: is_newline_def)
  from re_sub_repeat_run [OF assms(2,3) this, of 2 b]
  have lone: "re_sub_repeat is_newline 2 b (u @ [0x0A] @ v) =
       re_sub_repeat is_newline 2 b u @ [0x0A] @ re_sub_repeat is_newline 2 b v"
    by simp
  have squash: "squash_whitespace (x @ ws @ y) =
      squash_whitespace x @ str '' '' @ squash_whitespace y"
    unfolding squash_whitespace_def
    using re_sub_repeat_run [OF assms(4,5,6,7), of 1 "str '' ''"] assms(7)
    by (cases ws) simp_all
  have modes: "str ''double'' \<noteq> str ''single''"
    by (simp add: str_def)
  show ?thesis
    using single double lone squash modes
    by (simp add: collapse_newlines_def re_sub_repeat_absent literal_marker_no_backslash
        re_sub_newlines_literal_marker [OF assms(1)] del: One_nat_def)
qed

text \<open>
  The theorem at the break marker \<^verbatim>\<open> @BRK#\<close>: at the prepared text of \<^verbatim>\<open>a\<close>, a newline
  and \<^verbatim>\<open>b\<close>, in which \<^verbatim>\<open>prep_text\<close> has put a space before the newline, under both
  modes and in the squash; and at three newlines between \<^verbatim>\<open>a\<close> and \<^verbatim>\<open>b\<close>.
\<close>

theorem newline_runs_collapsed_witness:
  "literal_marker (str '' @BRK#'') \<and>
   prep_text (str ''a'' @ [0x0A] @ str ''b'') = str ''a '' @ [0x0A] @ str ''b'' \<and>
   collapse_newlines (str ''single'') (str '' @BRK#'') (str ''a '' @ [0x0A] @ str ''b'') =
     Inr (str ''a  @BRK#b'') \<and>
   collapse_newlines (str ''double'') (str '' @BRK#'') (str ''a '' @ [0x0A] @ str ''b'') =
     Inr (str ''a '' @ [0x0A] @ str ''b'') \<and>
   squash_whitespace (str ''a '' @ [0x0A] @ str ''b'') = str ''a b'' \<and>
   collapse_newlines (str ''single'') (str '' @BRK#'') (str ''a'' @ [0x0A, 0x0A, 0x0A] @ str ''b'') =
     Inr (str ''a @BRK#b'') \<and>
   collapse_newlines (str ''double'') (str '' @BRK#'') (str ''a'' @ [0x0A, 0x0A, 0x0A] @ str ''b'') =
     Inr (str ''a @BRK#b'')"
proof -
  have marker: "literal_marker (str '' @BRK#'')"
    by (rule literal_marker_no_backslash) (simp add: str_def)
  have prep: "prep_text (str ''a'' @ [0x0A] @ str ''b'') = str ''a '' @ [0x0A] @ str ''b''"
    by (simp add: eval_defs)
  have u: "str ''a '' = [] \<or> \<not> is_newline (last (str ''a ''))"
    and u': "str ''a'' = [] \<or> \<not> is_newline (last (str ''a''))"
    and v: "str ''b'' = [] \<or> \<not> is_newline (hd (str ''b''))"
    and x: "str ''a'' = [] \<or> \<not> re_space (last (str ''a''))"
    and y: "str ''b'' = [] \<or> \<not> re_space (hd (str ''b''))"
    and ws: "list_all re_space [0x20, 0x0A]" "[0x20, 0x0A] \<noteq> ([] :: ustr)"
    by (simp_all add: str_def is_newline_def re_space_def isspace_def)
  have strip: "str_strip (str ''a '' @ [0x0A] @ str ''b'') = str ''a '' @ replicate 1 0x0A @ str ''b''"
    "str_strip (str ''a'' @ [0x0A, 0x0A, 0x0A] @ str ''b'') = str ''a'' @ replicate 3 0x0A @ str ''b''"
    by (simp_all add: str_def str_strip_def isspace_def numeral_3_eq_3)
  have rest: "re_sub_repeat is_newline k (str '' @BRK#'') (str ''a'') = str ''a''"
    "re_sub_repeat is_newline k (str '' @BRK#'') (str ''a '') = str ''a ''"
    "re_sub_repeat is_newline k (str '' @BRK#'') (str ''b'') = str ''b''"
    "squash_whitespace (str ''a'') = str ''a''" "squash_whitespace (str ''b'') = str ''b''" for k
    by (simp_all add: str_def is_newline_def squash_whitespace_def re_space_def isspace_def)
  from newline_runs_collapsed [OF marker u v x y ws, of
      "str ''a '' @ [0x0A] @ str ''b''" 1 "[]"]
  have one: "collapse_newlines (str ''single'') (str '' @BRK#'') (str ''a '' @ [0x0A] @ str ''b'') =
     Inr (str ''a  @BRK#b'')"
    "collapse_newlines (str ''double'') (str '' @BRK#'') (str ''a '' @ [0x0A] @ str ''b'') =
     Inr (str ''a '' @ [0x0A] @ str ''b'')"
    "squash_whitespace (str ''a '' @ [0x0A] @ str ''b'') = str ''a b''"
    unfolding strip rest by (simp_all add: str_def)
  from newline_runs_collapsed [OF marker u' v x y ws, of
      "str ''a'' @ [0x0A, 0x0A, 0x0A] @ str ''b''" 3 "[]"]
  have three: "collapse_newlines (str ''single'') (str '' @BRK#'') (str ''a'' @ [0x0A, 0x0A, 0x0A] @ str ''b'') =
     Inr (str ''a @BRK#b'')"
    "collapse_newlines (str ''double'') (str '' @BRK#'') (str ''a'' @ [0x0A, 0x0A, 0x0A] @ str ''b'') =
     Inr (str ''a @BRK#b'')"
    unfolding strip rest by (simp_all add: str_def)
  from marker prep one three show ?thesis by (intro conjI)
qed

text \<open>
  C3 as it is written fails for a break marker with a backslash. With the marker of a
  backslash and the letter n the newline of the prepared text of \<^verbatim>\<open>a\<close>, a newline and
  \<^verbatim>\<open>b\<close> is replaced by a newline, not by the marker; with the marker of a backslash
  and the digit 1 the step fails.
\<close>

theorem newline_runs_collapsed_counterexample:
  "collapse_newlines (str ''single'') [0x5C, 0x6E] (str ''a '' @ [0x0A] @ str ''b'') =
     Inr (str ''a '' @ [0x0A] @ str ''b'') \<and>
   collapse_newlines (str ''single'') [0x5C, 0x6E] (str ''a '' @ [0x0A] @ str ''b'') \<noteq>
     Inr (str ''a '' @ [0x5C, 0x6E] @ str ''b'') \<and>
   collapse_newlines (str ''single'') [0x5C, 0x31] (str ''a '' @ [0x0A] @ str ''b'') =
     Inl TemplateError"
  by (simp add: collapse_newlines_def template_defs eval_defs)

subsection \<open>End-note numbers\<close>

lemma endnote_lookbehind_not_digit: "endnote_lookbehind c \<Longrightarrow> \<not> re_digit c"
  by (auto simp: endnote_lookbehind_def re_digit_def isdecimal_below_0x660)

lemma re_sub_endnotes_append:
  assumes "a \<noteq> []" and "\<not> re_digit (last a)"
  shows "re_sub_endnotes prev (a @ b) = re_sub_endnotes prev a @ re_sub_endnotes (Some (last a)) b"
  using assms
proof (induction prev a rule: re_sub_endnotes.induct)
  case (1 prev)
  then show ?case by simp
next
  case (2 prev c cs)
  from "2.prems" have fin: "\<not> re_digit (last (c # cs))" by simp
  have tw: "takeWhile re_digit (c # cs @ b) = takeWhile re_digit (c # cs)"
    "dropWhile re_digit (c # cs @ b) = dropWhile re_digit (c # cs) @ b"
    using takeWhile_before_end [of "c # cs" re_digit b] fin by simp_all
  show ?case
  proof (cases "(case prev of None \<Rightarrow> False | Some p \<Rightarrow> endnote_lookbehind p) \<and> re_digit c")
    case True
    from dropWhile_keeps_end [of "c # cs" re_digit] fin
    have keep: "dropWhile re_digit (c # cs) \<noteq> []"
      "last (dropWhile re_digit (c # cs)) = last (c # cs)"
      by simp_all
    with fin have "\<not> re_digit (last (dropWhile re_digit (c # cs)))" by simp
    from "2.IH"(1) [OF True keep(1) this] True tw keep(2) show ?thesis
      by (auto split: if_splits)
  next
    case False
    show ?thesis
    proof (cases cs)
      case Nil
      with False show ?thesis by auto
    next
      case (Cons d ds)
      with "2.prems" have "cs \<noteq> []" "\<not> re_digit (last cs)" by auto
      from "2.IH"(2) [OF False this] False Cons show ?thesis by auto
    qed
  qed
qed

lemma re_sub_endnotes_no_digit_first:
  assumes "v = [] \<or> \<not> re_digit (hd v)"
  shows "re_sub_endnotes prev v = re_sub_endnotes None v"
  using assms by (cases v) auto

lemma re_sub_endnotes_removed:
  assumes "endnote_lookbehind p" and "ds \<noteq> []" and "list_all re_digit ds"
    and "v = [] \<or> \<not> re_digit (hd v)"
  shows "re_sub_endnotes (Some p) (ds @ v) = re_sub_endnotes None v"
proof -
  from assms(2) obtain d ds' where ds: "ds = d # ds'" by (cases ds) auto
  with assms(3) have "re_digit d" by simp
  moreover from takeWhile_run [OF assms(3,4)]
  have "takeWhile re_digit (d # ds' @ v) = ds" "dropWhile re_digit (d # ds' @ v) = v"
    by (simp_all add: ds)
  ultimately have "re_sub_endnotes (Some p) (ds @ v) = re_sub_endnotes (Some (last ds)) v"
    using assms(1) by (simp add: ds)
  with re_sub_endnotes_no_digit_first [OF assms(4)] show ?thesis by simp
qed

lemma re_sub_endnotes_kept:
  assumes "case prev of None \<Rightarrow> True | Some p \<Rightarrow> \<not> endnote_lookbehind p"
    and "list_all re_digit ds"
  shows "re_sub_endnotes prev (ds @ v) =
    ds @ re_sub_endnotes (if ds = [] then prev else Some (last ds)) v"
  using assms
proof (induction ds arbitrary: prev)
  case Nil
  then show ?case by simp
next
  case (Cons d ds)
  then have "re_digit d" by simp
  with endnote_lookbehind_not_digit have "\<not> endnote_lookbehind d" by blast
  with Cons.prems have "re_sub_endnotes (Some d) (ds @ v) =
    ds @ re_sub_endnotes (if ds = [] then Some d else Some (last ds)) v"
    by (intro Cons.IH) simp_all
  with Cons.prems(1) show ?case
    by (auto split: option.splits)
qed

lemma re_sub_endnotes_snoc:
  assumes "\<not> re_digit p"
  shows "re_sub_endnotes prev (u @ [p]) = re_sub_endnotes prev u @ [p]"
proof (induction prev u rule: re_sub_endnotes.induct)
  case (1 prev)
  with assms show ?case by simp
next
  case (2 prev c cs)
  have tw: "takeWhile re_digit (c # cs @ [p]) = takeWhile re_digit (c # cs)"
    "dropWhile re_digit (c # cs @ [p]) = dropWhile re_digit (c # cs) @ [p]"
    using takeWhile_tail [of re_digit p "c # cs" "[]"] dropWhile_append3 [of re_digit p "c # cs" "[]"]
      assms by simp_all
  show ?case
  proof (cases "(case prev of None \<Rightarrow> False | Some p \<Rightarrow> endnote_lookbehind p) \<and> re_digit c")
    case True
    from "2.IH"(1) [OF True] True tw show ?thesis
      by (auto split: if_splits)
  next
    case False
    from "2.IH"(2) [OF False] False show ?thesis by auto
  qed
qed

text \<open>
  C4, as the code has it. Let \<open>ds\<close> be a maximal run of decimal digits: it is not empty
  and \<open>v\<close>, the text behind it, does not begin with a digit. If the character \<open>p\<close> before
  the run is of the lookbehind class, the run is removed and nothing else changes there;
  if \<open>p\<close> is neither of the class nor a digit, or if the run stands at the start of the
  text, the run is kept. The class holds the characters that the specification lists
  and, beyond them, the closing parenthesis.
\<close>

theorem endnote_runs:
  assumes "ds \<noteq> []" and "list_all re_digit ds" and "v = [] \<or> \<not> re_digit (hd v)"
  shows
    "(endnote_lookbehind p \<longrightarrow>
        strip_endnotes (u @ [p] @ ds @ v) = strip_endnotes u @ [p] @ strip_endnotes v) \<and>
     (\<not> endnote_lookbehind p \<and> \<not> re_digit p \<longrightarrow>
        strip_endnotes (u @ [p] @ ds @ v) = strip_endnotes u @ [p] @ ds @ strip_endnotes v) \<and>
     strip_endnotes (ds @ v) = ds @ strip_endnotes v \<and>
     (endnote_lookbehind p \<longleftrightarrow> claimed_endnote_prefix p \<or> p = 0x29)"
proof -
  have split: "strip_endnotes (u @ [p] @ ds @ v) =
      strip_endnotes u @ [p] @ re_sub_endnotes (Some p) (ds @ v)" if "\<not> re_digit p"
    using re_sub_endnotes_append [of "u @ [p]" None "ds @ v"] re_sub_endnotes_snoc [OF that, of None u]
      that by (simp add: strip_endnotes_def)
  have removed: "strip_endnotes (u @ [p] @ ds @ v) = strip_endnotes u @ [p] @ strip_endnotes v"
    if "endnote_lookbehind p"
    using split [OF endnote_lookbehind_not_digit [OF that]]
      re_sub_endnotes_removed [OF that assms]
    by (simp add: strip_endnotes_def)
  have last_digit: "re_sub_endnotes (Some (last ds)) v = strip_endnotes v"
    using re_sub_endnotes_no_digit_first [OF assms(3)] by (simp add: strip_endnotes_def)
  have kept: "strip_endnotes (u @ [p] @ ds @ v) = strip_endnotes u @ [p] @ ds @ strip_endnotes v"
    if "\<not> endnote_lookbehind p" "\<not> re_digit p"
    using split [OF that(2)] re_sub_endnotes_kept [of "Some p" ds v] that(1) assms(1,2) last_digit
    by simp
  have start: "strip_endnotes (ds @ v) = ds @ strip_endnotes v"
    using re_sub_endnotes_kept [of None ds v] assms(1,2) last_digit
    by (simp add: strip_endnotes_def)
  have "endnote_lookbehind p \<longleftrightarrow> claimed_endnote_prefix p \<or> p = 0x29"
    by (auto simp: endnote_lookbehind_def claimed_endnote_prefix_def)
  with removed kept start show ?thesis by blast
qed

text \<open>
  The theorem at a run behind a period, a run behind an opening parenthesis, and a run at
  the start.
\<close>

theorem endnote_runs_witness:
  "endnote_lookbehind 0x2E \<and>
   strip_endnotes (str ''end.12 x'') = str ''end. x'' \<and>
   \<not> endnote_lookbehind 0x28 \<and> \<not> re_digit 0x28 \<and>
   strip_endnotes (str ''a (12 x'') = str ''a (12 x'' \<and>
   strip_endnotes (str ''12 x'') = str ''12 x''"
proof -
  have ds: "str ''12'' \<noteq> []" "list_all re_digit (str ''12'')"
    and v: "str '' x'' = [] \<or> \<not> re_digit (hd (str '' x''))"
    by (simp_all add: str_def re_digit_def isdecimal_below_0x660)
  have dot: "endnote_lookbehind 0x2E"
    and paren: "\<not> endnote_lookbehind 0x28" "\<not> re_digit 0x28"
    by (simp_all add: endnote_lookbehind_def re_digit_def isdecimal_below_0x660)
  have rest: "strip_endnotes (str ''end'') = str ''end''" "strip_endnotes (str ''a '') = str ''a ''"
    "strip_endnotes (str '' x'') = str '' x''"
    by (simp_all add: strip_endnotes_def str_def re_digit_def isdecimal_below_0x660
        endnote_lookbehind_def)
  have "strip_endnotes (str ''end'' @ [0x2E] @ str ''12'' @ str '' x'') =
      str ''end'' @ [0x2E] @ str '' x''"
    using endnote_runs [OF ds v, of "0x2E" "str ''end''"] dot rest by simp
  moreover have "strip_endnotes (str ''a '' @ [0x28] @ str ''12'' @ str '' x'') =
      str ''a '' @ [0x28] @ str ''12'' @ str '' x''"
    using endnote_runs [OF ds v, of "0x28" "str ''a ''"] paren rest by simp
  moreover have "strip_endnotes (str ''12'' @ str '' x'') = str ''12'' @ str '' x''"
    using endnote_runs [OF ds v, of "0x28" "[]"] rest by simp
  ultimately show ?thesis using dot paren by (simp add: str_def)
qed

text \<open>
  C4 as it is written fails: in \<^verbatim>\<open>(1)2\<close> the run \<^verbatim>\<open>2\<close> stands behind a closing
  parenthesis, which is none of the listed characters, and it is removed.
\<close>

theorem endnote_runs_counterexample:
  "\<not> claimed_endnote_prefix 0x29 \<and> re_digit 0x32 \<and>
   strip_endnotes (str ''(1)2'') = str ''(1)''"
  by (simp add: claimed_endnote_prefix_def strip_endnotes_def str_def re_digit_def
      isdecimal_below_0x660 endnote_lookbehind_def)

subsection \<open>The title sanitizer\<close>

lemma re_sub_each_delete: "re_sub_each P [] s = filter (\<lambda>c. \<not> P c) s"
  by (induction s) (simp_all add: re_sub_each_def)

lemma set_str_strip: "set (str_strip s) \<subseteq> set s"
  by (auto simp: str_strip_def dest!: set_dropWhileD)

lemma str_strip_no_space: "\<not> list_ex isspace s \<Longrightarrow> str_strip s = s"
proof -
  assume *: "\<not> list_ex isspace s"
  then have "dropWhile isspace s = s"
    by (cases s) (auto simp: list_ex_iff)
  moreover from * have "dropWhile isspace (rev s) = rev s"
    by (cases "rev s") (auto simp: list_ex_iff dest: arg_cong [of _ _ set])
  ultimately show ?thesis by (simp add: str_strip_def)
qed

lemma sanitize_title_words: "c \<in> set (sanitize_title t b) \<Longrightarrow> re_word c"
proof -
  define replaced where "replaced = str_replace b (str '' '') t"
  define kept where "kept = str_strip (filter (\<lambda>c. re_word c \<or> re_space c) replaced)"
  have eq: "sanitize_title t b = re_sub_repeat re_space (Suc 0) (str ''_'') kept"
    unfolding sanitize_title_def Let_def re_sub_each_delete kept_def replaced_def
    by simp
  assume "c \<in> set (sanitize_title t b)"
  then have "c \<in> set (re_sub_repeat re_space (Suc 0) (str ''_'') kept)"
    by (simp only: eq)
  with set_re_sub_repeat_Suc_0 [of re_space "str ''_''" kept]
  have "c \<in> {x \<in> set kept. \<not> re_space x} \<union> set (str ''_'')"
    by (rule subsetD)
  moreover have "set (str ''_'') = {0x5F}"
    by (simp add: str_def)
  ultimately have c: "(c \<in> set kept \<and> \<not> re_space c) \<or> c = 0x5F"
    by blast
  have "set kept \<subseteq> set (filter (\<lambda>c. re_word c \<or> re_space c) replaced)"
    unfolding kept_def by (rule set_str_strip)
  then have k: "re_word x \<or> re_space x" if "x \<in> set kept" for x
    using that by auto
  show ?thesis
  proof (cases "c = 0x5F")
    case True
    then show ?thesis by (simp add: re_word_def)
  next
    case False
    with c have "c \<in> set kept" "\<not> re_space c" by simp_all
    with k [of c] show ?thesis by simp
  qed
qed

lemma sanitize_title_fixed:
  assumes "\<forall>c \<in> set r. re_word c" and "\<not> sublist b r"
  shows "sanitize_title r b = r"
proof -
  from assms(1) have nospace: "\<not> list_ex re_space r"
    by (auto simp: list_ex_iff dest: re_word_not_space)
  from assms(1) have "filter (\<lambda>c. re_word c \<or> re_space c) r = r"
    by (auto intro: filter_True)
  moreover from nospace have "str_strip r = r"
    by (intro str_strip_no_space) (simp add: re_space_def [abs_def])
  ultimately show ?thesis
    using nospace
    by (simp add: sanitize_title_def str_replace_absent [OF assms(2)] re_sub_each_delete
        re_sub_repeat_absent)
qed

lemma sanitize_title_no_marker:
  assumes "\<exists>c \<in> set b. \<not> re_word c"
  shows "\<not> sublist b (sanitize_title title b)"
proof
  from assms obtain c where c: "c \<in> set b" "\<not> re_word c" by blast
  assume "sublist b (sanitize_title title b)"
  then have "set b \<subseteq> set (sanitize_title title b)"
    by (rule set_mono_sublist)
  with c have "c \<in> set (sanitize_title title b)" by blast
  with c(2) show False by (simp add: sanitize_title_words)
qed

lemma sanitize_examples:
  "sanitize_title (str ''Part @BRK#One: x'') (str '' @BRK#'') = str ''Part_One_x''"
  "sanitize_title (str ''_x'') (str '' @BRK#'') = str ''_x''"
  "sanitize_title (str ''B.RK'') (str ''BRK'') = str ''BRK''"
  "sanitize_title (str ''BRK'') (str ''BRK'') = []"
  "sanitize_title (str '' Hello,  World! '') (str '' @BRK#'') = str ''Hello_World''"
  "sanitize_title (str ''Hello_World'') (str '' @BRK#'') = str ''Hello_World''"
  by (simp_all add: chapter_defs eval_defs)

text \<open>
  C8, as the code has it. \<^verbatim>\<open>_sanitize_title\<close> replaces every occurrence of the break marker
  by one space, removes every character that is neither a word character nor whitespace,
  strips whitespace at both ends, and then turns every remaining run of whitespace into
  one underscore. Every character of its result is a word character and none is
  whitespace, so the result has no punctuation. The result has no occurrence of the break
  marker whenever the marker has a character that is not a word character.
\<close>

theorem sanitize_title_steps:
  "sanitize_title title b =
     re_sub_repeat re_space 1 (str ''_'')
       (str_strip (filter (\<lambda>c. re_word c \<or> re_space c) (str_replace b (str '' '') title))) \<and>
   (\<forall>c \<in> set (sanitize_title title b). re_word c \<and> \<not> re_space c) \<and>
   ((\<exists>c \<in> set b. \<not> re_word c) \<longrightarrow> \<not> sublist b (sanitize_title title b))"
proof (intro conjI ballI impI)
  show "sanitize_title title b =
     re_sub_repeat re_space 1 (str ''_'')
       (str_strip (filter (\<lambda>c. re_word c \<or> re_space c) (str_replace b (str '' '') title)))"
    by (simp add: sanitize_title_def re_sub_each_delete)
next
  fix c assume "c \<in> set (sanitize_title title b)"
  then show "re_word c" by (rule sanitize_title_words)
  then show "\<not> re_space c" by (rule re_word_not_space)
next
  assume "\<exists>c \<in> set b. \<not> re_word c"
  then show "\<not> sublist b (sanitize_title title b)"
    by (rule sanitize_title_no_marker)
qed

text \<open>The theorem at a title with the marker \<^verbatim>\<open> @BRK#\<close> and a colon in it.\<close>

theorem sanitize_title_steps_witness:
  "0x40 \<in> set (str '' @BRK#'') \<and> \<not> re_word 0x40 \<and>
   sanitize_title (str ''Part @BRK#One: x'') (str '' @BRK#'') = str ''Part_One_x'' \<and>
   re_word 0x5F \<and> \<not> re_space 0x5F \<and>
   \<not> sublist (str '' @BRK#'') (str ''Part_One_x'')"
proof -
  note run = sanitize_examples(1)
  note steps = sanitize_title_steps [of "str ''Part @BRK#One: x''" "str '' @BRK#''", unfolded run]
  have at: "0x40 \<in> set (str '' @BRK#'')"
    by (simp add: str_def)
  have nw: "\<not> re_word 0x40"
    by (simp add: re_word_def isalnum_def alnum_ranges_0_def)
  from at nw have "\<exists>c \<in> set (str '' @BRK#''). \<not> re_word c" by blast
  with steps have absent: "\<not> sublist (str '' @BRK#'') (str ''Part_One_x'')"
    by blast
  have "0x5F \<in> set (str ''Part_One_x'')"
    by (simp add: str_def)
  with steps have "re_word 0x5F \<and> \<not> re_space 0x5F"
    by blast
  with at nw run absent show ?thesis by blast
qed

text \<open>
  C8 as it is written fails twice. An underscore at the start of the title stays, where
  the listed steps strip it; and with a marker of word characters only, removing the
  punctuation can make the marker appear in the result.
\<close>

theorem sanitize_title_steps_counterexample:
  "sanitize_title (str ''_x'') (str '' @BRK#'') = str ''_x'' \<and>
   sanitize_title_spec (str ''_x'') (str '' @BRK#'') = str ''x'' \<and>
   str ''_x'' \<noteq> str ''x'' \<and>
   sanitize_title (str ''B.RK'') (str ''BRK'') = str ''BRK'' \<and>
   sublist (str ''BRK'') (str ''BRK'')"
proof -
  have "sanitize_title_spec (str ''_x'') (str '' @BRK#'') = str ''x''"
    by (simp add: sanitize_title_spec_def str_def re_word_def isalnum_ascii re_space_def
        isspace_def)
  moreover have "str ''_x'' \<noteq> str ''x''" by (simp add: str_def)
  ultimately show ?thesis using sanitize_examples(2,3) by simp
qed

text \<open>
  C9, as the code has it. Sanitizing a sanitized title gives the same string whenever
  the break marker does not occur in the sanitized title, and so for every marker with a
  character that is not a word character.
\<close>

theorem sanitize_title_idempotent:
  assumes "\<not> sublist b (sanitize_title title b) \<or> (\<exists>c \<in> set b. \<not> re_word c)"
  shows "sanitize_title (sanitize_title title b) b = sanitize_title title b"
proof (rule sanitize_title_fixed)
  show "\<forall>c \<in> set (sanitize_title title b). re_word c"
    by (simp add: sanitize_title_words)
  from assms show "\<not> sublist b (sanitize_title title b)"
  proof
    assume "\<exists>c \<in> set b. \<not> re_word c"
    then show ?thesis by (rule sanitize_title_no_marker)
  qed
qed

text \<open>The theorem at a title with spaces and punctuation and the marker \<^verbatim>\<open> @BRK#\<close>.\<close>

theorem sanitize_title_idempotent_witness:
  "0x40 \<in> set (str '' @BRK#'') \<and> \<not> re_word 0x40 \<and>
   sanitize_title (str '' Hello,  World! '') (str '' @BRK#'') = str ''Hello_World'' \<and>
   sanitize_title (sanitize_title (str '' Hello,  World! '') (str '' @BRK#'')) (str '' @BRK#'') =
     str ''Hello_World''"
proof -
  have at: "0x40 \<in> set (str '' @BRK#'')"
    by (simp add: str_def)
  have nw: "\<not> re_word 0x40"
    by (simp add: re_word_def isalnum_ascii)
  from at nw have "\<not> sublist (str '' @BRK#'')
      (sanitize_title (str '' Hello,  World! '') (str '' @BRK#'')) \<or>
    (\<exists>c \<in> set (str '' @BRK#''). \<not> re_word c)"
    by blast
  from sanitize_title_idempotent [OF this]
  have "sanitize_title (sanitize_title (str '' Hello,  World! '') (str '' @BRK#''))
      (str '' @BRK#'') = str ''Hello_World''"
    by (simp only: sanitize_examples)
  with at nw sanitize_examples(5) show ?thesis by (intro conjI)
qed

text \<open>
  C9 as it is written fails: with the marker \<^verbatim>\<open>BRK\<close> the title \<^verbatim>\<open>B.RK\<close> is sanitized to
  \<^verbatim>\<open>BRK\<close>, and this to the empty string.
\<close>

theorem sanitize_title_idempotent_counterexample:
  "sanitize_title (str ''B.RK'') (str ''BRK'') = str ''BRK'' \<and>
   sanitize_title (sanitize_title (str ''B.RK'') (str ''BRK'')) (str ''BRK'') = [] \<and>
   str ''BRK'' \<noteq> []"
  by (simp add: sanitize_examples) (simp add: str_def)

subsection \<open>Replacement and separators\<close>

lemma str_replace_self: "old \<noteq> [] \<Longrightarrow> str_replace old new old = new"
  by (cases old) simp_all

lemma str_replace_by_itself: "new = old \<Longrightarrow> str_replace old new s = s"
proof (induction old new s rule: str_replace.induct)
  case (1 old new)
  then show ?case by simp
next
  case (2 old new c cs)
  show ?case
  proof (cases "old = []")
    case True
    with "2.IH"(1) "2.prems" show ?thesis by simp
  next
    case False
    show ?thesis
    proof (cases "prefix old (c # cs)")
      case True
      then have "old @ drop (length old) (c # cs) = c # cs"
        by (metis append_eq_conv_conj prefix_def)
      with "2.IH"(2) [OF False True "2.prems"] False True "2.prems" show ?thesis by simp
    next
      case no: False
      with "2.IH"(3) [OF False no "2.prems"] False show ?thesis by simp
    qed
  qed
qed

lemma str_replace_same: "str_replace old old s = s"
  by (rule str_replace_by_itself) (rule refl)

lemma prefix_before_separator:
  assumes "c \<notin> set old"
  shows "prefix old (a @ c # b) \<longleftrightarrow> prefix old a"
proof
  assume "prefix old (a @ c # b)"
  then have "prefix old a \<or> (\<exists>us. old = a @ us \<and> prefix us (c # b))"
    by (simp add: prefix_append)
  then show "prefix old a"
  proof
    assume "prefix old a"
    then show ?thesis .
  next
    assume "\<exists>us. old = a @ us \<and> prefix us (c # b)"
    then obtain us where us: "old = a @ us" "prefix us (c # b)" by blast
    show ?thesis
    proof (cases us)
      case Nil
      with us show ?thesis by simp
    next
      case (Cons u us')
      with us have "c \<in> set old" by simp
      with assms show ?thesis by simp
    qed
  qed
qed auto

lemma str_replace_separator:
  assumes "old \<noteq> []" and "c \<notin> set old"
  shows "str_replace old new (a @ c # b) = str_replace old new a @ c # str_replace old new b"
  using assms
proof (induction old new a rule: str_replace.induct)
  case (1 old new)
  then have "\<not> prefix old (c # b)" by (cases old) auto
  with 1 show ?case by simp
next
  case (2 old new x xs)
  note sep = prefix_before_separator [OF "2.prems"(2), of "x # xs" b]
  show ?case
  proof (cases "prefix old (x # xs)")
    case True
    then have "length old \<le> length (x # xs)" by (rule prefix_length_le)
    then have "drop (length old) ((x # xs) @ c # b) = drop (length old) (x # xs) @ c # b"
      using drop_append [of "length old" "x # xs" "c # b"] by simp
    with "2.IH"(2) [OF "2.prems"(1) True "2.prems"] True sep "2.prems"(1) show ?thesis
      by simp
  next
    case False
    with "2.IH"(3) [OF "2.prems"(1) False "2.prems"] sep "2.prems"(1) show ?thesis
      by simp
  qed
qed

lemma re_split_not_Nil: "re_split P s \<noteq> []"
  by (induction s) auto

lemma re_split_no_separator: "\<not> list_ex P s \<Longrightarrow> re_split P s = [s]"
  by (induction s) auto

lemma re_split_separator:
  "\<not> list_ex P a \<Longrightarrow> P c \<Longrightarrow> re_split P (a @ c # b) = a # re_split P b"
  by (induction a) auto

lemma re_split_segments: "seg \<in> set (re_split P s) \<Longrightarrow> \<not> list_ex P seg"
proof (induction s arbitrary: seg)
  case Nil
  then show ?case by simp
next
  case (Cons c cs)
  show ?case
  proof (cases "P c")
    case True
    with Cons show ?thesis by auto
  next
    case False
    from re_split_not_Nil [of P cs] obtain x xs where split: "re_split P cs = x # xs"
      by (cases "re_split P cs") auto
    with Cons.prems False have "seg = c # x \<or> seg \<in> set xs" by simp
    with Cons.IH [of x] Cons.IH [of seg] split False show ?thesis by auto
  qed
qed

lemma first_separator:
  assumes "list_ex P s"
  obtains a c b where "s = a @ c # b" and "\<not> list_ex P a" and "P c"
proof -
  from assms have "dropWhile (\<lambda>x. \<not> P x) s \<noteq> []"
    by (auto simp: list_ex_iff)
  then obtain c b where d: "dropWhile (\<lambda>x. \<not> P x) s = c # b"
    by (cases "dropWhile (\<lambda>x. \<not> P x) s") auto
  then have "P c" using hd_dropWhile [of "\<lambda>x. \<not> P x" s] by simp
  moreover have "\<not> list_ex P (takeWhile (\<lambda>x. \<not> P x) s)"
    by (auto simp: list_ex_iff dest: set_takeWhileD)
  moreover have "s = takeWhile (\<lambda>x. \<not> P x) s @ c # b"
    using takeWhile_dropWhile_id [of "\<lambda>x. \<not> P x" s] d by simp
  ultimately show ?thesis using that by blast
qed

lemma str_replace_keeps_free:
  assumes "\<not> list_ex P s" and "\<not> list_ex P new"
  shows "\<not> list_ex P (str_replace old new s)"
  using assms set_str_replace [of old new s] by (auto simp: list_ex_iff)

lemma re_split_str_replace:
  assumes "old \<noteq> []" and "\<not> list_ex P old" and "\<not> list_ex P new"
  shows "re_split P (str_replace old new s) = map (str_replace old new) (re_split P s)"
proof (induction "length s" arbitrary: s rule: less_induct)
  case less
  show ?case
  proof (cases "list_ex P s")
    case False
    from False assms(3) have "\<not> list_ex P (str_replace old new s)"
      by (rule str_replace_keeps_free)
    with False show ?thesis by (simp add: re_split_no_separator)
  next
    case True
    then obtain a c b where s: "s = a @ c # b" and a: "\<not> list_ex P a" and c: "P c"
      by (rule first_separator)
    from c assms(2) have "c \<notin> set old" by (auto simp: list_ex_iff)
    with assms(1) have "str_replace old new s = str_replace old new a @ c # str_replace old new b"
      unfolding s by (rule str_replace_separator)
    moreover from a assms(3) have "\<not> list_ex P (str_replace old new a)"
      by (rule str_replace_keeps_free)
    moreover from s have "re_split P (str_replace old new b) = map (str_replace old new) (re_split P b)"
      by (intro less) simp
    ultimately show ?thesis using a c by (simp add: s re_split_separator)
  qed
qed


lemma re_sub_repeat_delete: "re_sub_repeat P (Suc 0) [] s = filter (\<lambda>c. \<not> P c) s"
proof (induction P "Suc 0" "[] :: ustr" s rule: re_sub_repeat.induct)
  case (1 P)
  then show ?case by simp
next
  case (2 P c cs)
  show ?case
  proof (cases "P c")
    case True
    have "filter (\<lambda>c. \<not> P c) (dropWhile P cs) = filter (\<lambda>c. \<not> P c) cs"
      by (induction cs) auto
    with "2.hyps"(1) True show ?thesis by simp
  next
    case False
    with "2.hyps"(2) show ?thesis by simp
  qed
qed

lemma replace_sentences_Cons:
  "replace_sentences (x # xs) s =
     replace_sentences xs (if list_ex is_cjk x then str_replace x (remove_spaces x) s else s)"
  by (simp add: re_search_def remove_spaces_def re_sub_repeat_delete)

lemma re_split_replace_sentences:
  assumes "\<forall>x \<in> set ss. \<not> list_ex P x"
  shows "re_split P (replace_sentences ss s) = map (replace_sentences ss) (re_split P s)"
  using assms
proof (induction ss arbitrary: s)
  case Nil
  then show ?case by simp
next
  case (Cons x xs)
  show ?case
  proof (cases "list_ex is_cjk x")
    case True
    then have "x \<noteq> []" by auto
    moreover from Cons.prems have "\<not> list_ex P x" by simp
    moreover from this have "\<not> list_ex P (remove_spaces x)"
      by (auto simp: list_ex_iff remove_spaces_def)
    ultimately have "re_split P (str_replace x (remove_spaces x) s) =
      map (str_replace x (remove_spaces x)) (re_split P s)"
      by (rule re_split_str_replace)
    with Cons True show ?thesis
      by (simp add: replace_sentences_Cons del: replace_sentences.simps(2))
  next
    case False
    with Cons show ?thesis
      by (simp add: replace_sentences_Cons del: replace_sentences.simps(2))
  qed
qed

subsection \<open>The Chinese branch\<close>

lemma remove_spaces_no_space: "\<not> list_ex re_space s \<Longrightarrow> remove_spaces s = s"
  by (auto simp: remove_spaces_def list_ex_iff intro: filter_True)

lemma no_space_remove_spaces: "\<not> list_ex re_space (remove_spaces s)"
  by (simp add: remove_spaces_def list_ex_iff)

lemma sublist_list_ex: "sublist x y \<Longrightarrow> list_ex P x \<Longrightarrow> list_ex P y"
  by (auto simp: list_ex_iff dest: set_mono_sublist)

lemma str_replace_cleaned:
  assumes "\<not> list_ex re_space y"
  shows "str_replace x (remove_spaces x) y = y"
proof (cases "list_ex re_space x")
  case True
  with assms have "\<not> sublist x y" by (auto dest: sublist_list_ex)
  then show ?thesis by (rule str_replace_absent)
next
  case False
  then show ?thesis by (simp add: remove_spaces_no_space str_replace_same)
qed

lemma replace_sentences_cleaned:
  "\<not> list_ex re_space y \<Longrightarrow> replace_sentences ss y = y"
  by (induction ss) (simp_all add: replace_sentences_Cons str_replace_cleaned del: replace_sentences.simps(2))

lemma replace_sentences_no_cjk:
  assumes "\<not> list_ex is_cjk y"
  shows "replace_sentences ss y = y"
proof (induction ss)
  case Nil
  show ?case by simp
next
  case (Cons x xs)
  have "str_replace x (remove_spaces x) y = y" if "list_ex is_cjk x"
    using that assms by (intro str_replace_absent) (auto dest: sublist_list_ex)
  with Cons show ?case
    by (simp add: replace_sentences_Cons del: replace_sentences.simps(2))
qed

lemma replace_sentences_append:
  "replace_sentences (xs @ ys) s = replace_sentences ys (replace_sentences xs s)"
  by (induction xs arbitrary: s) simp_all

lemma replace_sentences_before:
  assumes "y = s \<or> y = remove_spaces s"
    and "\<forall>x \<in> set pre. list_ex is_cjk x \<and> list_ex re_space x \<and> x \<noteq> s \<longrightarrow> \<not> sublist x s"
  shows "replace_sentences pre y = s \<or> replace_sentences pre y = remove_spaces s"
  using assms
proof (induction pre arbitrary: y)
  case Nil
  then show ?case by simp
next
  case (Cons x xs)
  have step: "str_replace x (remove_spaces x) y = s \<or>
    str_replace x (remove_spaces x) y = remove_spaces s" if cjk: "list_ex is_cjk x"
  proof (cases "y = s")
    case False
    with Cons.prems(1) have "y = remove_spaces s" by simp
    then show ?thesis
      by (simp add: str_replace_cleaned no_space_remove_spaces)
  next
    case True
    show ?thesis
    proof (cases "x = s")
      case same: True
      from cjk have "x \<noteq> []" by auto
      with same True show ?thesis by (simp add: str_replace_self)
    next
      case other: False
      show ?thesis
      proof (cases "list_ex re_space x")
        case False
        with True show ?thesis by (simp add: remove_spaces_no_space str_replace_same)
      next
        case space: True
        with cjk other Cons.prems(2) have "\<not> sublist x s" by simp
        with True show ?thesis by (simp add: str_replace_absent)
      qed
    qed
  qed
  from Cons.prems(2) have rest: "\<forall>x \<in> set xs. list_ex is_cjk x \<and> list_ex re_space x \<and> x \<noteq> s \<longrightarrow>
    \<not> sublist x s" by simp
  show ?case
  proof (cases "list_ex is_cjk x")
    case True
    from Cons.IH [OF step [OF True] rest] True show ?thesis
      by (simp add: replace_sentences_Cons del: replace_sentences.simps(2))
  next
    case False
    from Cons.IH [OF Cons.prems(1) rest] False show ?thesis
      by (simp add: replace_sentences_Cons del: replace_sentences.simps(2))
  qed
qed

lemma replace_sentences_own:
  assumes "list_ex is_cjk s" and "y = s \<or> y = remove_spaces s"
  shows "replace_sentences (s # post) y = remove_spaces s"
proof -
  from assms(1) have "s \<noteq> []" by auto
  with assms(2) have "str_replace s (remove_spaces s) y = remove_spaces s"
    by (auto simp: str_replace_self str_replace_cleaned no_space_remove_spaces)
  with assms(1) show ?thesis
    by (simp add: replace_sentences_Cons replace_sentences_cleaned no_space_remove_spaces
        del: replace_sentences.simps(2))
qed

lemma filter_str_replace:
  assumes "filter P new = filter P old"
  shows "filter P (str_replace old new s) = filter P s"
  using assms
proof (induction old new s rule: str_replace.induct)
  case (1 old new)
  then show ?case by auto
next
  case (2 old new c cs)
  show ?case
  proof (cases "old = []")
    case True
    with "2.IH"(1) "2.prems" show ?thesis by auto
  next
    case False
    show ?thesis
    proof (cases "prefix old (c # cs)")
      case True
      then have "old @ drop (length old) (c # cs) = c # cs"
        by (metis append_eq_conv_conj prefix_def)
      then have "filter P (c # cs) = filter P old @ filter P (drop (length old) (c # cs))"
        by (metis filter_append)
      with "2.IH"(2) [OF False True "2.prems"] "2.prems" False True show ?thesis by simp
    next
      case no: False
      with "2.IH"(3) [OF False no "2.prems"] False show ?thesis by simp
    qed
  qed
qed

lemma filter_replace_sentences:
  assumes "\<forall>x \<in> set ss. filter P (remove_spaces x) = filter P x"
  shows "filter P (replace_sentences ss s) = filter P s"
  using assms
proof (induction ss arbitrary: s)
  case Nil
  show ?case by simp
next
  case (Cons x xs)
  then have "filter P (str_replace x (remove_spaces x) s) = filter P s"
    by (intro filter_str_replace) simp
  with Cons show ?case
    by (simp add: replace_sentences_Cons del: replace_sentences.simps(2))
qed

lemma filter_remove_spaces_separators:
  "\<not> list_ex P x \<Longrightarrow> filter P (remove_spaces x) = filter P x"
  by (induction x) (auto simp: remove_spaces_def)

text \<open>
  C10, as the code has it. When the language code starts with \<^verbatim>\<open>zh\<close>, the text is split
  at the characters of a separator class, and the loop replaces every sentence that has a
  character of the range from U+4E00 to U+9FA5, wherever it occurs in the current text, by
  the sentence without whitespace. For every separator class: the separators stay as they
  are, so the segments of the result correspond to those of the text; every segment keeps
  its characters other than whitespace; a segment without such a character is left as it
  is; and a segment with such a character loses all its whitespace, provided that no
  earlier, different segment that has such a character and whitespace occurs inside it.
\<close>

theorem cjk_spaces_by_segment:
  assumes "segs = re_split sep cleaned" and "out = re_split sep (remove_cjk_spaces sep cleaned)"
    and "i < length segs"
  shows "length out = length segs \<and>
    filter sep (remove_cjk_spaces sep cleaned) = filter sep cleaned \<and>
    remove_spaces (out ! i) = remove_spaces (segs ! i) \<and>
    (\<not> re_search is_cjk (segs ! i) \<longrightarrow> out ! i = segs ! i) \<and>
    (re_search is_cjk (segs ! i) \<and>
     (\<forall>j<i. re_search is_cjk (segs ! j) \<and> list_ex re_space (segs ! j) \<and> segs ! j \<noteq> segs ! i \<longrightarrow>
        \<not> sublist (segs ! j) (segs ! i)) \<longrightarrow>
     out ! i = remove_spaces (segs ! i))"
proof -
  have free: "\<forall>x \<in> set segs. \<not> list_ex sep x"
    unfolding assms(1) by (auto dest: re_split_segments)
  then have out: "out = map (replace_sentences segs) segs"
    unfolding assms(2) remove_cjk_spaces_def assms(1) [symmetric]
    by (simp add: re_split_replace_sentences assms(1))
  with assms(3) have nth: "out ! i = replace_sentences segs (segs ! i)" by simp
  have len: "length out = length segs" by (simp add: out)
  have seps: "filter sep (remove_cjk_spaces sep cleaned) = filter sep cleaned"
    unfolding remove_cjk_spaces_def assms(1) [symmetric]
    using free by (intro filter_replace_sentences) (simp add: filter_remove_spaces_separators)
  have content: "remove_spaces (out ! i) = remove_spaces (segs ! i)"
    unfolding nth remove_spaces_def
    by (intro filter_replace_sentences) (simp add: remove_spaces_def)
  have untouched: "out ! i = segs ! i" if "\<not> re_search is_cjk (segs ! i)"
    using that by (simp add: nth re_search_def replace_sentences_no_cjk)
  have cleaned: "out ! i = remove_spaces (segs ! i)"
    if cjk: "re_search is_cjk (segs ! i)"
      and before: "\<forall>j<i. re_search is_cjk (segs ! j) \<and> list_ex re_space (segs ! j) \<and>
        segs ! j \<noteq> segs ! i \<longrightarrow> \<not> sublist (segs ! j) (segs ! i)"
  proof -
    from assms(3) have parts: "segs = take i segs @ segs ! i # drop (Suc i) segs"
      by (rule id_take_nth_drop)
    have "\<forall>x \<in> set (take i segs). list_ex is_cjk x \<and> list_ex re_space x \<and> x \<noteq> segs ! i \<longrightarrow>
      \<not> sublist x (segs ! i)"
    proof
      fix x assume "x \<in> set (take i segs)"
      then obtain j where "j < i" "j < length segs" "x = segs ! j"
        by (auto simp: in_set_conv_nth)
      with before show "list_ex is_cjk x \<and> list_ex re_space x \<and> x \<noteq> segs ! i \<longrightarrow>
        \<not> sublist x (segs ! i)"
        by (simp add: re_search_def)
    qed
    then have "replace_sentences (take i segs) (segs ! i) = segs ! i \<or>
      replace_sentences (take i segs) (segs ! i) = remove_spaces (segs ! i)"
      by (intro replace_sentences_before) simp_all
    with cjk have "replace_sentences (segs ! i # drop (Suc i) segs)
        (replace_sentences (take i segs) (segs ! i)) = remove_spaces (segs ! i)"
      by (intro replace_sentences_own) (simp_all add: re_search_def)
    then have "replace_sentences (take i segs @ segs ! i # drop (Suc i) segs) (segs ! i) =
        remove_spaces (segs ! i)"
      by (simp only: replace_sentences_append)
    with parts show ?thesis by (simp add: nth)
  qed
  from len seps content untouched cleaned show ?thesis by blast
qed

text \<open>
  The theorem at a text of three sentences, separated by U+043F of the source's class: one
  in Latin letters and two in Chinese, the shorter after the longer.
\<close>

lemmas cjk_defs = remove_cjk_spaces_def re_search_def is_cjk_def sentence_end_def
  re_space_def isspace_def remove_spaces_def claimed_sentence_end_def

theorem cjk_spaces_by_segment_witness:
  "re_split sentence_end cjk_example =
     [[0x61, 0x20, 0x62], [0x4E2D, 0x20, 0x6587, 0x20, 0x5B57], [0x4E2D, 0x20, 0x6587]] \<and>
   \<not> re_search is_cjk [0x61, 0x20, 0x62] \<and>
   re_search is_cjk [0x4E2D, 0x20, 0x6587, 0x20, 0x5B57] \<and>
   re_search is_cjk [0x4E2D, 0x20, 0x6587] \<and>
   \<not> sublist [0x4E2D, 0x20, 0x6587, 0x20, 0x5B57] ([0x4E2D, 0x20, 0x6587] :: ustr) \<and>
   length (re_split sentence_end (remove_cjk_spaces sentence_end cjk_example)) = 3 \<and>
   re_split sentence_end (remove_cjk_spaces sentence_end cjk_example) ! 0 = [0x61, 0x20, 0x62] \<and>
   re_split sentence_end (remove_cjk_spaces sentence_end cjk_example) ! 1 = [0x4E2D, 0x6587, 0x5B57] \<and>
   re_split sentence_end (remove_cjk_spaces sentence_end cjk_example) ! 2 = [0x4E2D, 0x6587]"
proof -
  let ?a = "[0x61, 0x20, 0x62] :: ustr"
  let ?b = "[0x4E2D, 0x20, 0x6587, 0x20, 0x5B57] :: ustr"
  let ?c = "[0x4E2D, 0x20, 0x6587] :: ustr"
  let ?out = "re_split sentence_end (remove_cjk_spaces sentence_end cjk_example)"
  have segs: "[?a, ?b, ?c] = re_split sentence_end cjk_example"
    by (simp add: cjk_example_def sentence_end_def)
  have cjk: "\<not> re_search is_cjk ?a" "re_search is_cjk ?b" "re_search is_cjk ?c"
    by (simp_all add: re_search_def is_cjk_def)
  have other: "\<not> sublist ?b ?c"
    by (simp add: sublist_Cons_right)
  have clean: "remove_spaces ?b = [0x4E2D, 0x6587, 0x5B57]" "remove_spaces ?c = [0x4E2D, 0x6587]"
    by (simp_all add: remove_spaces_def re_space_def isspace_def)
  note by_seg = cjk_spaces_by_segment [OF segs refl]
  have len: "length ?out = 3"
    using by_seg [of 0] by simp
  have 0: "?out ! 0 = ?a"
    using by_seg [of 0] cjk(1) by simp
  have "\<forall>j<1. re_search is_cjk ([?a, ?b, ?c] ! j) \<and> list_ex re_space ([?a, ?b, ?c] ! j) \<and>
      [?a, ?b, ?c] ! j \<noteq> [?a, ?b, ?c] ! 1 \<longrightarrow> \<not> sublist ([?a, ?b, ?c] ! j) ([?a, ?b, ?c] ! 1)"
    using cjk(1) by simp
  with by_seg [of 1] cjk(2) have "?out ! 1 = remove_spaces ?b" by simp
  with clean have 1: "?out ! 1 = [0x4E2D, 0x6587, 0x5B57]" by simp
  have "\<forall>j<2. re_search is_cjk ([?a, ?b, ?c] ! j) \<and> list_ex re_space ([?a, ?b, ?c] ! j) \<and>
      [?a, ?b, ?c] ! j \<noteq> [?a, ?b, ?c] ! 2 \<longrightarrow> \<not> sublist ([?a, ?b, ?c] ! j) ([?a, ?b, ?c] ! 2)"
    using cjk(1) other by (auto simp: less_Suc_eq numeral_2_eq_2)
  with by_seg [of 2] cjk(3) have "?out ! 2 = remove_spaces ?c" by simp
  with clean have 2: "?out ! 2 = [0x4E2D, 0x6587]" by simp
  from segs [symmetric] cjk other len 0 1 2 show ?thesis by (intro conjI)
qed

text \<open>
  C10 as it is written fails. Where a sentence occurs inside a later one, the later one is
  not found again after the first replacement and keeps a space. And the ideographic full
  stop is not in the separator class of the source file, so a sentence in Latin letters
  behind it belongs to the segment before it and loses its spaces.
\<close>

theorem cjk_spaces_by_segment_counterexample:
  "re_split sentence_end cjk_collision_example =
     [[0x4E2D, 0x20, 0x6587], [0x4E2D, 0x20, 0x6587, 0x20, 0x5B57]] \<and>
   re_search is_cjk [0x4E2D, 0x20, 0x6587, 0x20, 0x5B57] \<and>
   remove_cjk_spaces sentence_end cjk_collision_example =
     [0x4E2D, 0x6587, 0x43F, 0x4E2D, 0x6587, 0x20, 0x5B57] \<and>
   re_split sentence_end [0x4E2D, 0x6587, 0x43F, 0x4E2D, 0x6587, 0x20, 0x5B57] =
     [[0x4E2D, 0x6587], [0x4E2D, 0x6587, 0x20, 0x5B57]] \<and>
   re_space 0x20 \<and>
   re_split claimed_sentence_end cjk_mark_example = [[0x4E2D, 0x20, 0x6587], [0x61, 0x20, 0x62]] \<and>
   \<not> re_search is_cjk [0x61, 0x20, 0x62] \<and>
   remove_cjk_spaces sentence_end cjk_mark_example = [0x4E2D, 0x6587, 0x3002, 0x61, 0x62]"
  by (simp add: cjk_collision_example_def cjk_mark_example_def cjk_defs)

subsection \<open>The prepared text under the mode \<^verbatim>\<open>double\<close>\<close>

text \<open>
  \<^verbatim>\<open>prep_text\<close> puts a space before every newline, so in the text that \<^verbatim>\<open>get_chapters\<close>
  hands to the substitution no two newlines are adjacent: under \<^verbatim>\<open>double\<close> the
  substitution finds no run and inserts no break marker, whatever the break marker is
  that \<^verbatim>\<open>re.sub\<close> accepts.
\<close>

lemma str_replace_char:
  "str_replace [a] new s = concat (map (\<lambda>c. if c = a then new else [c]) s)"
  by (induction s) auto

lemma newlines_apart_Cons:
  "newlines_apart (c # cs) \<longleftrightarrow> (cs = [] \<or> \<not> (is_newline c \<and> is_newline (hd cs))) \<and> newlines_apart cs"
  by (cases cs) auto

lemma newlines_apart_append:
  "newlines_apart (xs @ ys) \<Longrightarrow> newlines_apart xs \<and> newlines_apart ys"
proof (induction xs rule: newlines_apart.induct)
  case 1
  then show ?case by simp
next
  case (2 c)
  then show ?case by (simp add: newlines_apart_Cons)
next
  case (3 c d cs)
  then show ?case by simp
qed

lemma newlines_apart_expand:
  "newlines_apart (concat (map (\<lambda>c. if c = 0x0A then [0x20, 0x0A] else [c]) s))"
proof (induction s)
  case Nil
  show ?case by simp
next
  case (Cons c cs)
  let ?f = "\<lambda>c. if c = 0x0A then [0x20, 0x0A] else [c :: nat]"
  have hd: "concat (map ?f cs) = [] \<or> \<not> is_newline (hd (concat (map ?f cs)))"
    by (cases cs) (auto simp: is_newline_def)
  from Cons hd show ?case
    by (auto simp: newlines_apart_Cons is_newline_def)
qed

lemma newlines_apart_map:
  assumes "\<And>c. is_newline (f c) \<longleftrightarrow> is_newline c"
  shows "newlines_apart (map f s) = newlines_apart s"
  by (induction s rule: newlines_apart.induct) (simp_all add: assms)

lemma newlines_apart_strip: "newlines_apart s \<Longrightarrow> newlines_apart (str_strip s)"
proof -
  assume *: "newlines_apart s"
  let ?t = "dropWhile isspace s"
  have "s = takeWhile isspace s @ ?t" by simp
  with * have t: "newlines_apart ?t"
    using newlines_apart_append [of "takeWhile isspace s" ?t] by simp
  have "?t = rev (dropWhile isspace (rev ?t)) @ rev (takeWhile isspace (rev ?t))"
    by (metis rev_append rev_rev_ident takeWhile_dropWhile_id)
  with t show ?thesis
    using newlines_apart_append [of "rev (dropWhile isspace (rev ?t))" "rev (takeWhile isspace (rev ?t))"]
    by (simp add: str_strip_def)
qed

lemma re_sub_repeat_newlines_apart:
  "newlines_apart s \<Longrightarrow> re_sub_repeat_template is_newline 2 t s = s"
proof (induction s)
  case Nil
  show ?case by simp
next
  case (Cons c cs)
  then have "cs = [] \<or> \<not> (is_newline c \<and> is_newline (hd cs))" and cs: "newlines_apart cs"
    by (simp_all add: newlines_apart_Cons)
  then have "length (takeWhile is_newline (c # cs)) \<le> 1"
    by (cases cs) auto
  with Cons.IH [OF cs] show ?case by simp
qed

lemma prep_text_newlines_apart: "newlines_apart (prep_text text_in)"
proof -
  obtain y where prep: "prep_text text_in =
    str_strip (str_replace (str ''*'') (str '' '') (str_replace [0x0A] [0x20, 0x0A] y))"
    by (simp add: prep_text_def prep_text_replacements_def)
  have "str_replace [0x2A] [0x20] t = map (\<lambda>c. if c = 0x2A then 0x20 else c) t" for t
    by (induction t) auto
  then have "newlines_apart (str_replace (str ''*'') (str '' '') (str_replace [0x0A] [0x20, 0x0A] y))"
    by (simp add: str_def str_replace_char newlines_apart_expand newlines_apart_map is_newline_def)
  then show ?thesis
    unfolding prep by (rule newlines_apart_strip)
qed

lemma str_strip_fixed:
  assumes "t = [] \<or> (\<not> isspace (hd t) \<and> \<not> isspace (last t))"
  shows "str_strip t = t"
proof (cases t)
  case Nil
  then show ?thesis by (simp add: str_strip_def)
next
  case (Cons c cs)
  then have "t \<noteq> []" by simp
  with assms have "\<not> isspace (hd t)" "\<not> isspace (hd (rev t))"
    by (simp_all only: hd_rev) simp_all
  then have "dropWhile isspace t = t" "dropWhile isspace (rev t) = rev t"
    by (simp_all add: dropWhile_eq_self_iff)
  then show ?thesis by (simp add: str_strip_def)
qed

lemma str_strip_ends:
  "str_strip s = [] \<or> (\<not> isspace (hd (str_strip s)) \<and> \<not> isspace (last (str_strip s)))"
proof (cases "str_strip s = []")
  case True
  then show ?thesis ..
next
  case False
  let ?t = "dropWhile isspace s"
  let ?d = "dropWhile isspace (rev ?t)"
  have r: "str_strip s = rev ?d" by (simp add: str_strip_def)
  with False have d: "?d \<noteq> []" by simp
  then have "\<not> isspace (hd ?d)" by (rule hd_dropWhile)
  with d r have last: "\<not> isspace (last (str_strip s))" by (simp add: last_rev)
  have "?t = rev ?d @ rev (takeWhile isspace (rev ?t))"
    by (metis rev_append rev_rev_ident takeWhile_dropWhile_id)
  with d have "hd (rev ?d) = hd ?t" and "?t \<noteq> []"
    by (metis hd_append2 rev_is_Nil_conv, metis append_is_Nil_conv rev_is_Nil_conv)
  moreover from this have "\<not> isspace (hd ?t)" by (simp add: hd_dropWhile)
  ultimately have "\<not> isspace (hd (str_strip s))" by (simp add: r)
  with last show ?thesis by simp
qed

lemma str_strip_idem: "str_strip (str_strip s) = str_strip s"
  using str_strip_ends by (rule str_strip_fixed)

lemma double_mode_inserts_no_marker:
  "collapse_newlines (str ''double'') b (prep_text text_in) =
     (case parse_template b of Inl e \<Rightarrow> Inl e | Inr t \<Rightarrow> Inr (prep_text text_in))"
proof -
  have "str_strip (prep_text text_in) = prep_text text_in"
    by (simp add: prep_text_def str_strip_idem)
  moreover have "str ''double'' \<noteq> str ''single''" by (simp add: str_def)
  ultimately show ?thesis
    by (simp add: collapse_newlines_def re_sub_newlines_def re_sub_repeat_newlines_apart
        prep_text_newlines_apart split: sum.splits)
qed

end
